theory Spec2Isabelle
  imports Main "HOL-Library.Word"
begin

section \<open>The function service cache of the executor (pkg/executor/fscache)\<close>

text \<open>
  A shallow embedding of \<^verbatim>\<open>functionServiceCache.go\<close>. The Go program keeps
  pointers to \<^verbatim>\<open>FuncSvc\<close> structs in its indices and hands copies of them to its
  callers, so the memory is explicit here: a store from addresses to structs, and indices
  that hold addresses. Every operation takes the state and returns the new one together
  with what the caller sees: a value, a panic, or nothing at all when the caller is left
  waiting on a channel.
\<close>

subsection \<open>Errors (pkg/error)\<close>

datatype errorCode = ErrorNotFound | ErrorNameExists | ErrorInternal

text \<open>
  A Go \<^verbatim>\<open>error\<close> is either a \<^verbatim>\<open>ferror.Error\<close> (code and message) or such
  an error wrapped by \<^verbatim>\<open>errors.Wrap\<close>, which is no longer a \<^verbatim>\<open>ferror.Error\<close>.
\<close>

datatype error = Error errorCode string | Wrap error string

definition MakeError :: "errorCode \<Rightarrow> string \<Rightarrow> error" where
  "MakeError code msg = Error code msg"

fun IsNotFoundError :: "error \<Rightarrow> bool" where
  "IsNotFoundError (Error code msg) = (code = ErrorNotFound)"
| "IsNotFoundError (Wrap e msg) = False"

fun IsNameExistError :: "error \<Rightarrow> bool" where
  "IsNameExistError (Error code msg) = (code = ErrorNameExists)"
| "IsNameExistError (Wrap e msg) = False"

subsection \<open>Time\<close>

text \<open>
  A \<^verbatim>\<open>time.Time\<close> taken with \<^verbatim>\<open>time.Now()\<close> is a reading of the process's
  monotonic clock, in nanoseconds; a \<^verbatim>\<open>time.Duration\<close> is a 64-bit count of
  nanoseconds, and \<^verbatim>\<open>Time.Sub\<close> saturates at its bounds.
\<close>

type_synonym Time = int
type_synonym Duration = int

definition maxDuration :: Duration where
  "maxDuration = 2 ^ 63 - 1"

definition minDuration :: Duration where
  "minDuration = - (2 ^ 63)"

definition Sub :: "Time \<Rightarrow> Time \<Rightarrow> Duration" where
  "Sub t u =
     (let d = t - u
      in if d < minDuration then minDuration
         else if maxDuration < d then maxDuration
         else d)"

text \<open>\<^verbatim>\<open>time.Since(t)\<close> is \<^verbatim>\<open>time.Now().Sub(t)\<close>; the reading of the clock is
  the first argument.\<close>

definition Since :: "Time \<Rightarrow> Time \<Rightarrow> Duration" where
  "Since now t = Sub now t"

subsection \<open>The data model\<close>

type_synonym ptr = nat

text \<open>Of a \<^verbatim>\<open>metav1.ObjectMeta\<close> the cache reads these four fields only.\<close>

record ObjectMeta =
  Name :: string
  Namespace :: string
  UID :: string
  ResourceVersion :: string

record ObjectReference =
  Kind :: string
  Name :: string

text \<open>
  A slice is a view of a backing array: copying the slice copies the view, not the array.
\<close>

record slice =
  array :: ptr
  len :: nat

text \<open>A \<^verbatim>\<open>resource.Quantity\<close> is only copied and printed: it is kept as the text
  that \<^verbatim>\<open>%v\<close> prints.\<close>

type_synonym Quantity = string

record FuncSvc =
  Name :: string
  Function :: "ptr option"
  Environment :: "ptr option"
  Address :: string
  KubernetesObjects :: slice
  Executor :: string
  CPULimit :: Quantity
  Ctime :: Time
  Atime :: Time

record KeyValue =
  Key :: string
  Value :: string

subsection \<open>The pool cache (poolcache.go)\<close>

text \<open>
  Modelled from the spec: \<^verbatim>\<open>PoolCache\<close> and its groups are declared in a file that is
  not among the sources. The spec gives a group the fields \<^verbatim>\<open>svcs\<close> (address to
  entry, an entry holding \<^verbatim>\<open>val\<close>, \<^verbatim>\<open>activeRequests\<close>, \<^verbatim>\<open>currentCPUUsage\<close>
  and \<^verbatim>\<open>cpuLimit\<close>), \<^verbatim>\<open>queue\<close> and \<^verbatim>\<open>svcWaiting\<close>; of the queue only its length
  is read here.
\<close>

record FuncSvcInfo =
  val :: ptr
  activeRequests :: int
  currentCPUUsage :: Quantity
  cpuLimit :: Quantity

record FuncSvcGroup =
  svcWaiting :: int
  svcs :: "(string \<times> FuncSvcInfo) list"
  queue :: nat

type_synonym PoolCache = "(string \<times> FuncSvcGroup) list"

subsection \<open>The state\<close>

datatype level = Info | Err

text \<open>
  The first five fields are the memory of the process: the structs behind the pointers the
  cache holds or is given, and the next free address for a \<^verbatim>\<open>FuncSvc\<close>. The next four
  are the fields of \<^verbatim>\<open>FunctionServiceCache\<close>; an index is an association list with no
  key twice, and its order stands for the order in which Go happens to range over the map.
  \<open>serving\<close> says that the goroutine started by \<^verbatim>\<open>MakeFunctionServiceCache\<close> is still
  in the loop of \<^verbatim>\<open>service\<close>. \<open>logged\<close> is what the logger received (level,
  message, and the strings of a \<^verbatim>\<open>zap.Strings\<close> field; other fields and debug lines are not kept) and \<open>FuncRunningSummary\<close> what the metric observed (function name, function
  namespace, and the duration whose \<^verbatim>\<open>Seconds()\<close> it is given).
\<close>

record world =
  funcSvcs :: "ptr \<Rightarrow> FuncSvc"
  objectMetas :: "ptr \<Rightarrow> ObjectMeta"
  environments :: "ptr \<Rightarrow> ObjectMeta"
  arrays :: "ptr \<Rightarrow> ObjectReference list"
  nextFuncSvc :: ptr
  byFunction :: "(string \<times> ptr) list"
  byAddress :: "(string \<times> ObjectMeta) list"
  byFunctionUID :: "(string \<times> ObjectMeta) list"
  connFunctionCache :: PoolCache
  serving :: bool
  logged :: "(level \<times> string \<times> string list) list"
  FuncRunningSummary :: "(string \<times> string \<times> Duration) list"

subsection \<open>Telemetry attributes\<close>

definition GetAttributesForFuncSvc :: "world \<Rightarrow> ptr option \<Rightarrow> KeyValue list" where
  "GetAttributesForFuncSvc w fsvc =
     (case fsvc of
        None \<Rightarrow> []
      | Some p \<Rightarrow>
          (let f = funcSvcs w p;
               attrs0 = [];
               attrs1 = (case Function f of
                           None \<Rightarrow> attrs0
                         | Some m \<Rightarrow> attrs0 @
                             [\<lparr>Key = ''function-name'', Value = ObjectMeta.Name (objectMetas w m)\<rparr>,
                              \<lparr>Key = ''function-namespace'', Value = Namespace (objectMetas w m)\<rparr>]);
               attrs2 = (case Environment f of
                           None \<Rightarrow> attrs1
                         | Some e \<Rightarrow> attrs1 @
                             [\<lparr>Key = ''environment-name'', Value = ObjectMeta.Name (environments w e)\<rparr>,
                              \<lparr>Key = ''environment-namespace'', Value = Namespace (environments w e)\<rparr>]);
               attrs3 = (if Address f \<noteq> '''' then attrs2 @ [\<lparr>Key = ''address'', Value = Address f\<rparr>]
                         else attrs2)
           in attrs3))"

subsection \<open>What a caller sees\<close>

text \<open>
  A call returns a value, or panics (a nil pointer is dereferenced), or never returns: the
  caller is left sending on, or receiving from, a channel that no goroutine serves.
\<close>

datatype 'a outcome = Returns 'a | Panics | Blocks

subsection \<open>Memory and logger\<close>

definition zap :: "level \<Rightarrow> string \<Rightarrow> string list \<Rightarrow> world \<Rightarrow> world" where
  "zap l msg strings w = w\<lparr>logged := logged w @ [(l, msg, strings)]\<rparr>"

definition assign :: "ptr \<Rightarrow> FuncSvc \<Rightarrow> world \<Rightarrow> world" where
  "assign p v w = w\<lparr>funcSvcs := (funcSvcs w)(p := v)\<rparr>"

text \<open>A struct whose address is taken (\<^verbatim>\<open>&fsvc\<close>, \<^verbatim>\<open>&fsvcCopy\<close>) lives at an
  address of its own.\<close>

definition new :: "FuncSvc \<Rightarrow> world \<Rightarrow> ptr \<times> world" where
  "new v w =
     (nextFuncSvc w,
      w\<lparr>funcSvcs := (funcSvcs w)(nextFuncSvc w := v), nextFuncSvc := Suc (nextFuncSvc w)\<rparr>)"

subsection \<open>An index (pkg/cache)\<close>

text \<open>
  Modelled from the spec: \<^verbatim>\<open>cache.Cache\<close> is declared in a file that is not among the
  sources. The spec has it as a keyed map with \<^verbatim>\<open>Get\<close>, \<^verbatim>\<open>Set\<close>, \<^verbatim>\<open>Delete\<close>
  and \<^verbatim>\<open>Copy\<close>: a lookup of an absent key is \<^verbatim>\<open>NotFound\<close>, and setting a key
  that is bound leaves the binding, returns the value it holds and is \<^verbatim>\<open>NameExists\<close>.
  The indices are made with \<^verbatim>\<open>MakeCache(0, 0)\<close>: entries do not expire.
\<close>

definition cache_Get :: "'k \<Rightarrow> ('k \<times> 'v) list \<Rightarrow> error + 'v" where
  "cache_Get key c =
     (case map_of c key of
        None \<Rightarrow> Inl (MakeError ErrorNotFound ''key not found'')
      | Some v \<Rightarrow> Inr v)"

definition cache_Set ::
  "'k \<Rightarrow> 'v \<Rightarrow> ('k \<times> 'v) list \<Rightarrow> ('v option \<times> error option) \<times> ('k \<times> 'v) list" where
  "cache_Set key v c =
     (case map_of c key of
        Some existing \<Rightarrow> ((Some existing, Some (MakeError ErrorNameExists ''key already exists'')), c)
      | None \<Rightarrow> ((None, None), c @ [(key, v)]))"

definition cache_Delete :: "'k \<Rightarrow> ('k \<times> 'v) list \<Rightarrow> error option \<times> ('k \<times> 'v) list" where
  "cache_Delete key c = (None, filter (\<lambda>kv. fst kv \<noteq> key) c)"

definition cache_Copy :: "('k \<times> 'v) list \<Rightarrow> ('k \<times> 'v) list" where
  "cache_Copy c = c"

subsection \<open>The serializer\<close>

datatype fscRequestType = TOUCH | LISTOLD | LOG | LISTOLDPOOL

record fscRequest =
  requestType :: fscRequestType
  address :: string
  age :: Duration

record fscResponse =
  objects :: "ptr list"
  error :: "error option"

text \<open>
  \<^verbatim>\<open>crd.CacheKey\<close> is not among the sources; every operation takes it as its first
  argument, and nothing is assumed of it. It reads the fields of the \<^verbatim>\<open>ObjectMeta\<close> it
  is given a pointer to, so a nil pointer panics there. \<^verbatim>\<open>time.Now()\<close> is the second
  argument: one reading of the clock for the whole call.
\<close>

definition touchByAddress ::
  "(ObjectMeta \<Rightarrow> string) \<Rightarrow> Time \<Rightarrow> string \<Rightarrow> world \<Rightarrow> error option \<times> world" where
  "touchByAddress CacheKey now addr w =
     (case cache_Get addr (byAddress w) of
        Inl err \<Rightarrow> (Some err, w)
      | Inr m \<Rightarrow>
          (case cache_Get (CacheKey m) (byFunction w) of
             Inl err \<Rightarrow> (Some err, w)
           | Inr fsvc \<Rightarrow> (None, assign fsvc ((funcSvcs w fsvc)\<lparr>Atime := now\<rparr>) w)))"

text \<open>The loop of the \<^verbatim>\<open>LISTOLD\<close> case over the copy of \<^verbatim>\<open>byFunctionUID\<close>:
  \<open>Inl\<close> is the error of the lookup that failed.\<close>

fun listOld :: "(ObjectMeta \<Rightarrow> string) \<Rightarrow> Time \<Rightarrow> Duration \<Rightarrow> world \<Rightarrow>
    (string \<times> ObjectMeta) list \<Rightarrow> ptr list \<Rightarrow> error + ptr list" where
  "listOld CacheKey now a w [] funcObjects = Inr funcObjects"
| "listOld CacheKey now a w ((uid, mI) # fscs) funcObjects =
     (case cache_Get (CacheKey mI) (byFunction w) of
        Inl err \<Rightarrow> Inl err
      | Inr fsvc \<Rightarrow>
          listOld CacheKey now a w fscs
            (if Since now (Atime (funcSvcs w fsvc)) > a then funcObjects @ [fsvc]
             else funcObjects))"

definition logInfo :: "world \<Rightarrow> (string \<times> ptr) list \<Rightarrow> string list" where
  "logInfo w funcCopy =
     concat (map (\<lambda>(key, fsvc).
        map (\<lambda>kubeObj. key @ [CHR 0x09] @ Kind kubeObj @ [CHR 0x09] @ ObjectReference.Name kubeObj)
          (take (len (KubernetesObjects (funcSvcs w fsvc)))
             (arrays w (array (KubernetesObjects (funcSvcs w fsvc)))))) funcCopy)"

text \<open>Modelled from the spec: \<^verbatim>\<open>ListAvailableValue\<close> of the pool cache, which is not
  among the sources, "returns a snapshot list of every entry across all groups whose
  \<^verbatim>\<open>activeRequests == 0\<close>".\<close>

definition ListAvailableValue :: "PoolCache \<Rightarrow> ptr list" where
  "ListAvailableValue c =
     concat (map (\<lambda>(key, g).
        map (\<lambda>(a, i). val i) (filter (\<lambda>(a, i). activeRequests i = 0) (svcs g))) c)"

text \<open>
  One turn of the loop of \<^verbatim>\<open>service\<close> on the request it received. \<open>Some resp\<close> is the
  response sent on the request's channel; \<open>None\<close> says that the function returned
  without sending one, which ends the goroutine.
\<close>

definition service ::
  "(ObjectMeta \<Rightarrow> string) \<Rightarrow> Time \<Rightarrow> fscRequest \<Rightarrow> world \<Rightarrow> fscResponse option \<times> world" where
  "service CacheKey now req w =
     (let resp = \<lparr>objects = [], error = None\<rparr>
      in case requestType req of
           TOUCH \<Rightarrow>
             (case touchByAddress CacheKey now (address req) w of
                (e, w') \<Rightarrow> (Some (resp\<lparr>error := e\<rparr>), w'))
         | LISTOLD \<Rightarrow>
             (case listOld CacheKey now (age req) w (cache_Copy (byFunctionUID w)) [] of
                Inl err \<Rightarrow>
                  (None, (zap Err ''error while getting service'' [] w)\<lparr>serving := False\<rparr>)
              | Inr funcObjects \<Rightarrow> (Some (resp\<lparr>objects := funcObjects\<rparr>), w))
         | LOG \<Rightarrow>
             (let w1 = zap Info ''dumping function service cache'' [] w;
                  funcCopy = cache_Copy (byFunction w1);
                  info = logInfo w1 funcCopy
              in (Some resp, zap Info ''function service cache'' info w1))
         | LISTOLDPOOL \<Rightarrow>
             (let fscs = ListAvailableValue (connFunctionCache w);
                  funcObjects = filter (\<lambda>fsvc. Since now (Atime (funcSvcs w fsvc)) > age req) fscs
              in (Some (resp\<lparr>objects := funcObjects\<rparr>), w)))"

text \<open>
  A request is sent on the unbuffered \<^verbatim>\<open>requestChannel\<close>, which only the goroutine of
  \<^verbatim>\<open>service\<close> receives from, and the caller then receives from the request's own
  response channel: it is served when that goroutine is in its loop and answers.
\<close>

definition request ::
  "(ObjectMeta \<Rightarrow> string) \<Rightarrow> Time \<Rightarrow> fscRequest \<Rightarrow> world \<Rightarrow> fscResponse outcome \<times> world" where
  "request CacheKey now req w =
     (if \<not> serving w then (Blocks, w)
      else case service CacheKey now req w of
             (None, w') \<Rightarrow> (Blocks, w')
           | (Some resp, w') \<Rightarrow> (Returns resp, w'))"

fun answer :: "(fscResponse \<Rightarrow> 'a) \<Rightarrow> fscResponse outcome \<times> world \<Rightarrow> 'a outcome \<times> world" where
  "answer f (Returns resp, w) = (Returns (f resp), w)"
| "answer f (Panics, w) = (Panics, w)"
| "answer f (Blocks, w) = (Blocks, w)"

definition TouchByAddress ::
  "(ObjectMeta \<Rightarrow> string) \<Rightarrow> Time \<Rightarrow> string \<Rightarrow> world \<Rightarrow> error option outcome \<times> world" where
  "TouchByAddress CacheKey now addr w =
     answer error (request CacheKey now \<lparr>requestType = TOUCH, address = addr, age = 0\<rparr> w)"

definition ListOld :: "(ObjectMeta \<Rightarrow> string) \<Rightarrow> Time \<Rightarrow> Duration \<Rightarrow> world \<Rightarrow>
    (ptr list \<times> error option) outcome \<times> world" where
  "ListOld CacheKey now a w =
     answer (\<lambda>resp. (objects resp, error resp))
       (request CacheKey now \<lparr>requestType = LISTOLD, address = [], age = a\<rparr> w)"

definition ListOldForPool :: "(ObjectMeta \<Rightarrow> string) \<Rightarrow> Time \<Rightarrow> Duration \<Rightarrow> world \<Rightarrow>
    (ptr list \<times> error option) outcome \<times> world" where
  "ListOldForPool CacheKey now a w =
     answer (\<lambda>resp. (objects resp, error resp))
       (request CacheKey now \<lparr>requestType = LISTOLDPOOL, address = [], age = a\<rparr> w)"

definition Log :: "(ObjectMeta \<Rightarrow> string) \<Rightarrow> Time \<Rightarrow> world \<Rightarrow> unit outcome \<times> world" where
  "Log CacheKey now w =
     (case answer (\<lambda>resp. ())
             (request CacheKey now \<lparr>requestType = LOG, address = [], age = 0\<rparr>
                (zap Info ''--- FunctionService Cache Contents'' [] w)) of
        (Returns u, w') \<Rightarrow> (Returns (), zap Info ''--- FunctionService Cache Contents End'' [] w')
      | (Panics, w') \<Rightarrow> (Panics, w')
      | (Blocks, w') \<Rightarrow> (Blocks, w'))"

subsection \<open>Lookups\<close>

text \<open>The two statements after a successful lookup: \<^verbatim>\<open>fsvc.Atime = time.Now()\<close> on
  the cached struct, then \<^verbatim>\<open>fsvcCopy := *fsvc\<close>, whose address is returned.\<close>

definition touchAndCopy :: "Time \<Rightarrow> ptr \<Rightarrow> world \<Rightarrow> ptr \<times> world" where
  "touchAndCopy now fsvc w =
     (let w1 = assign fsvc ((funcSvcs w fsvc)\<lparr>Atime := now\<rparr>) w
      in new (funcSvcs w1 fsvc) w1)"

definition GetByFunction :: "(ObjectMeta \<Rightarrow> string) \<Rightarrow> Time \<Rightarrow> ptr option \<Rightarrow> world \<Rightarrow>
    (ptr option \<times> error option) outcome \<times> world" where
  "GetByFunction CacheKey now m w =
     (case m of
        None \<Rightarrow> (Panics, w)
      | Some mp \<Rightarrow>
          (case cache_Get (CacheKey (objectMetas w mp)) (byFunction w) of
             Inl err \<Rightarrow> (Returns (None, Some err), w)
           | Inr fsvc \<Rightarrow>
               (case touchAndCopy now fsvc w of
                  (fsvcCopy, w') \<Rightarrow> (Returns (Some fsvcCopy, None), w'))))"

definition GetByFunctionUID :: "(ObjectMeta \<Rightarrow> string) \<Rightarrow> Time \<Rightarrow> string \<Rightarrow> world \<Rightarrow>
    (ptr option \<times> error option) outcome \<times> world" where
  "GetByFunctionUID CacheKey now uid w =
     (case cache_Get uid (byFunctionUID w) of
        Inl err \<Rightarrow> (Returns (None, Some err), w)
      | Inr m \<Rightarrow>
          (case cache_Get (CacheKey m) (byFunction w) of
             Inl err \<Rightarrow> (Returns (None, Some err), w)
           | Inr fsvc \<Rightarrow>
               (case touchAndCopy now fsvc w of
                  (fsvcCopy, w') \<Rightarrow> (Returns (Some fsvcCopy, None), w'))))"

subsection \<open>Add\<close>

text \<open>
  \<^verbatim>\<open>Add\<close> takes the struct by value and stores \<^verbatim>\<open>&fsvc\<close>, the address of its own
  parameter: the parameter is allocated first. The result of a secondary index that answers
  with an error is \<open>secondary\<close>: \<^verbatim>\<open>NameExists\<close> becomes nil, any other error is
  wrapped, and \<^verbatim>\<open>Add\<close> returns at once in both cases.
\<close>

definition secondary :: "error \<Rightarrow> string \<Rightarrow> error option" where
  "secondary err msg = (if IsNameExistError err then None else Some (Wrap err msg))"

definition Add :: "(ObjectMeta \<Rightarrow> string) \<Rightarrow> Time \<Rightarrow> FuncSvc \<Rightarrow> world \<Rightarrow>
    (ptr option \<times> error option) outcome \<times> world" where
  "Add CacheKey now param w0 =
     (case new param w0 of (fsvc, w) \<Rightarrow>
      case Function (funcSvcs w fsvc) of
        None \<Rightarrow> (Panics, w)
      | Some fn \<Rightarrow>
          (case cache_Set (CacheKey (objectMetas w fn)) fsvc (byFunction w) of (r, byF) \<Rightarrow>
           let w1 = w\<lparr>byFunction := byF\<rparr>
           in case snd r of
                Some err \<Rightarrow>
                  (if IsNameExistError err then
                     (case fst r of
                        None \<Rightarrow> (Panics, w1)
                      | Some f \<Rightarrow>
                          (case TouchByAddress CacheKey now (Address (funcSvcs w1 f)) w1 of
                             (Returns (Some err2), w2) \<Rightarrow> (Returns (None, Some err2), w2)
                           | (Returns None, w2) \<Rightarrow>
                               (case new (funcSvcs w2 f) w2 of
                                  (fCopy, w3) \<Rightarrow> (Returns (Some fCopy, None), w3))
                           | (Panics, w2) \<Rightarrow> (Panics, w2)
                           | (Blocks, w2) \<Rightarrow> (Blocks, w2)))
                   else (Returns (None, Some err), w1))
              | None \<Rightarrow>
                  (let w2 = assign fsvc ((funcSvcs w1 fsvc)\<lparr>Ctime := now, Atime := now\<rparr>) w1
                   in case cache_Set (Address (funcSvcs w2 fsvc)) (objectMetas w2 fn) (byAddress w2) of
                        (ra, byA) \<Rightarrow>
                        let w3 = w2\<lparr>byAddress := byA\<rparr>
                        in case snd ra of
                             Some err \<Rightarrow> (Returns (None, secondary err ''error caching fsvc''), w3)
                           | None \<Rightarrow>
                               (case cache_Set (UID (objectMetas w3 fn)) (objectMetas w3 fn)
                                       (byFunctionUID w3) of
                                  (ru, byU) \<Rightarrow>
                                  let w4 = w3\<lparr>byFunctionUID := byU\<rparr>
                                  in case snd ru of
                                       Some err \<Rightarrow>
                                         (Returns (None,
                                            secondary err ''error caching fsvc by function uid''), w4)
                                     | None \<Rightarrow> (Returns (None, None), w4)))))"

subsection \<open>Removal\<close>

text \<open>
  \<^verbatim>\<open>DeleteEntry\<close>, with the \<^verbatim>\<open>Delete\<close> of each of the three indices as an argument,
  so that what it does with an index that answers with an error can be stated whatever that
  index does. A nil \<^verbatim>\<open>fsvc\<close>, or a nil \<^verbatim>\<open>fsvc.Function\<close>, panics at the first line.
\<close>

definition logIfErr :: "error option \<Rightarrow> string \<Rightarrow> world \<Rightarrow> world" where
  "logIfErr err msg w = (if err \<noteq> None then zap Err msg [] w else w)"

definition DeleteEntryVia ::
  "(string \<Rightarrow> (string \<times> ptr) list \<Rightarrow> error option \<times> (string \<times> ptr) list) \<Rightarrow>
   (string \<Rightarrow> (string \<times> ObjectMeta) list \<Rightarrow> error option \<times> (string \<times> ObjectMeta) list) \<Rightarrow>
   (string \<Rightarrow> (string \<times> ObjectMeta) list \<Rightarrow> error option \<times> (string \<times> ObjectMeta) list) \<Rightarrow>
   (ObjectMeta \<Rightarrow> string) \<Rightarrow> ptr option \<Rightarrow> world \<Rightarrow> unit outcome \<times> world" where
  "DeleteEntryVia delF delA delU CacheKey fsvc w =
     (case fsvc of
        None \<Rightarrow> (Panics, w)
      | Some p \<Rightarrow>
          (case Function (funcSvcs w p) of
             None \<Rightarrow> (Panics, w)
           | Some fn \<Rightarrow>
               (let msg = ''error deleting function service'';
                    (err1, byF) = delF (CacheKey (objectMetas w fn)) (byFunction w);
                    w1 = logIfErr err1 msg (w\<lparr>byFunction := byF\<rparr>);
                    (err2, byA) = delA (Address (funcSvcs w1 p)) (byAddress w1);
                    w2 = logIfErr err2 msg (w1\<lparr>byAddress := byA\<rparr>);
                    (err3, byU) = delU (UID (objectMetas w2 fn)) (byFunctionUID w2);
                    w3 = logIfErr err3 msg (w2\<lparr>byFunctionUID := byU\<rparr>)
                in (Returns (),
                    w3\<lparr>FuncRunningSummary := FuncRunningSummary w3 @
                         [(ObjectMeta.Name (objectMetas w3 fn), Namespace (objectMetas w3 fn),
                           Sub (Atime (funcSvcs w3 p)) (Ctime (funcSvcs w3 p)))]\<rparr>))))"

definition DeleteEntry ::
  "(ObjectMeta \<Rightarrow> string) \<Rightarrow> ptr option \<Rightarrow> world \<Rightarrow> unit outcome \<times> world" where
  "DeleteEntry = DeleteEntryVia cache_Delete cache_Delete cache_Delete"

definition DeleteOld :: "(ObjectMeta \<Rightarrow> string) \<Rightarrow> Time \<Rightarrow> ptr option \<Rightarrow> Duration \<Rightarrow> world \<Rightarrow>
    (bool \<times> error option) outcome \<times> world" where
  "DeleteOld CacheKey now fsvc minAge w =
     (case fsvc of
        None \<Rightarrow> (Panics, w)
      | Some p \<Rightarrow>
          (if Since now (Atime (funcSvcs w p)) < minAge then (Returns (False, None), w)
           else case DeleteEntry CacheKey fsvc w of
                  (Returns u, w') \<Rightarrow> (Returns (True, None), w')
                | (Panics, w') \<Rightarrow> (Panics, w')
                | (Blocks, w') \<Rightarrow> (Blocks, w')))"

subsection \<open>Start\<close>

text \<open>\<^verbatim>\<open>MakeFunctionServiceCache\<close>: three empty indices, an empty pool cache, and the
  goroutine of \<^verbatim>\<open>service\<close> started. The argument is the process before the call.\<close>

definition MakeFunctionServiceCache :: "world \<Rightarrow> world" where
  "MakeFunctionServiceCache w =
     w\<lparr>byFunction := [], byAddress := [], byFunctionUID := [], connFunctionCache := [],
       serving := True\<rparr>"

subsection \<open>Operations of the pool cache\<close>

text \<open>Assignment to a key of a Go map: the binding is replaced, or added.\<close>

fun upsert :: "'k \<Rightarrow> 'v \<Rightarrow> ('k \<times> 'v) list \<Rightarrow> ('k \<times> 'v) list" where
  "upsert k v [] = [(k, v)]"
| "upsert k v (kv # c) = (if fst kv = k then (k, v) # c else kv # upsert k v c)"

definition emptyGroup :: FuncSvcGroup where
  "emptyGroup = \<lparr>svcWaiting = 0, svcs = [], queue = 0\<rparr>"

definition groupAt :: "PoolCache \<Rightarrow> string \<Rightarrow> FuncSvcGroup" where
  "groupAt c key = (case map_of c key of None \<Rightarrow> emptyGroup | Some g \<Rightarrow> g)"

text \<open>
  Modelled from the spec: \<^verbatim>\<open>SetSvcValue\<close> of the pool cache, which is not among the
  sources, "inserts/updates the entry for (key, address); if a waiter is in the group's
  queue, it is dequeued and handed this entry (decrementing \<^verbatim>\<open>svcWaiting\<close>)". With
  no waiter in the queue, a specialization that was promised has arrived and
  \<^verbatim>\<open>svcWaiting\<close>, when positive, goes down by one as well: the spec's scenario 5 has it
  go from 1 to 0 on an empty queue. A new entry has no active request.
\<close>

definition SetSvcValue ::
  "string \<Rightarrow> string \<Rightarrow> ptr \<Rightarrow> Quantity \<Rightarrow> int \<Rightarrow> PoolCache \<Rightarrow> PoolCache" where
  "SetSvcValue key addr fsvc cpu requestsPerPod c =
     (let g = groupAt c key;
          entry = (case map_of (svcs g) addr of
                     None \<Rightarrow> \<lparr>val = fsvc, activeRequests = 0, currentCPUUsage = ''0'', cpuLimit = cpu\<rparr>
                   | Some i \<Rightarrow> i\<lparr>val := fsvc, cpuLimit := cpu\<rparr>);
          g1 = g\<lparr>svcs := upsert addr entry (svcs g)\<rparr>;
          g2 = (if 0 < queue g1 then g1\<lparr>queue := queue g1 - 1, svcWaiting := svcWaiting g1 - 1\<rparr>
                else if 0 < svcWaiting g1 then g1\<lparr>svcWaiting := svcWaiting g1 - 1\<rparr>
                else g1)
      in upsert key g2 c)"

text \<open>
  Modelled from the spec: \<^verbatim>\<open>GetSvcValue\<close> of the pool cache, which is not among the
  sources. "Scan the group's \<^verbatim>\<open>svcs\<close> for an entry with
  \<^verbatim>\<open>activeRequests < requestsPerPod\<close>; if found, increment \<^verbatim>\<open>activeRequests\<close>,
  refresh \<^verbatim>\<open>Atime\<close>, return a copy. Otherwise, if
  \<^verbatim>\<open>len(svcs) + svcWaiting < concurrency\<close>, return \<^verbatim>\<open>NotFound\<close> and increment
  \<^verbatim>\<open>svcWaiting\<close>. Otherwise, enqueue the request and block". Who wakes a waiter is
  another goroutine: within this call the caller is left waiting. The spec also asks that
  the entry found be "marked Available", and gives an entry no field for such a mark (an
  entry holds \<^verbatim>\<open>val\<close>, \<^verbatim>\<open>activeRequests\<close>, \<^verbatim>\<open>currentCPUUsage\<close> and
  \<^verbatim>\<open>cpuLimit\<close>): the scan here selects on \<^verbatim>\<open>activeRequests\<close> alone, which finds
  every entry that a scan with the mark would find.
\<close>

definition GetSvcValue ::
  "Time \<Rightarrow> string \<Rightarrow> int \<Rightarrow> int \<Rightarrow> world \<Rightarrow> (error + ptr) outcome \<times> world" where
  "GetSvcValue now key requestsPerPod concurrency w =
     (let c = connFunctionCache w; g = groupAt c key
      in case find (\<lambda>ai. activeRequests (snd ai) < requestsPerPod) (svcs g) of
           Some ai \<Rightarrow>
             (let i = (snd ai)\<lparr>activeRequests := activeRequests (snd ai) + 1\<rparr>;
                  g1 = g\<lparr>svcs := upsert (fst ai) i (svcs g)\<rparr>;
                  w1 = w\<lparr>connFunctionCache := upsert key g1 c\<rparr>
              in case touchAndCopy now (val i) w1 of
                   (fsvcCopy, w2) \<Rightarrow> (Returns (Inr fsvcCopy), w2))
         | None \<Rightarrow>
             (if int (length (svcs g)) + svcWaiting g < concurrency
              then (Returns (Inl (MakeError ErrorNotFound ''function service not found'')),
                    w\<lparr>connFunctionCache := upsert key (g\<lparr>svcWaiting := svcWaiting g + 1\<rparr>) c\<rparr>)
              else (Blocks, w\<lparr>connFunctionCache := upsert key (g\<lparr>queue := queue g + 1\<rparr>) c\<rparr>)))"


definition GetFuncSvc :: "(ObjectMeta \<Rightarrow> string) \<Rightarrow> Time \<Rightarrow> ptr option \<Rightarrow> int \<Rightarrow> int \<Rightarrow> world \<Rightarrow>
    (ptr option \<times> error option) outcome \<times> world" where
  "GetFuncSvc CacheKey now m requestsPerPod concurrency w =
     (case m of
        None \<Rightarrow> (Panics, w)
      | Some mp \<Rightarrow>
          (case GetSvcValue now (CacheKey (objectMetas w mp)) requestsPerPod concurrency w of
             (Returns (Inl err), w') \<Rightarrow>
               (Returns (None, Some err), zap Info ''Not found in Cache'' [] w')
           | (Returns (Inr fsvc), w') \<Rightarrow>
               (case touchAndCopy now fsvc w' of
                  (fsvcCopy, w'') \<Rightarrow> (Returns (Some fsvcCopy, None), w''))
           | (Panics, w') \<Rightarrow> (Panics, w')
           | (Blocks, w') \<Rightarrow> (Blocks, w')))"

definition AddFunc ::
  "(ObjectMeta \<Rightarrow> string) \<Rightarrow> Time \<Rightarrow> FuncSvc \<Rightarrow> int \<Rightarrow> world \<Rightarrow> unit outcome \<times> world" where
  "AddFunc CacheKey now param requestsPerPod w0 =
     (case new param w0 of (fsvc, w) \<Rightarrow>
      case Function (funcSvcs w fsvc) of
        None \<Rightarrow> (Panics, w)
      | Some fn \<Rightarrow>
          (let w1 = w\<lparr>connFunctionCache :=
                       SetSvcValue (CacheKey (objectMetas w fn)) (Address (funcSvcs w fsvc)) fsvc
                         (CPULimit (funcSvcs w fsvc)) requestsPerPod (connFunctionCache w)\<rparr>
           in (Returns (), assign fsvc ((funcSvcs w1 fsvc)\<lparr>Ctime := now, Atime := now\<rparr>) w1)))"

subsection \<open>The dump of the pool cache\<close>
























subsection \<open>Sequences of calls\<close>

text \<open>
  A call of one of the operations with its arguments, and the state it leaves. A sequence
  of calls is run on a clock that never goes back: each call reads the clock some
  nanoseconds (none, possibly) after the one before it.
\<close>

datatype call =
    CallAdd FuncSvc
  | CallAddFunc FuncSvc int
  | CallGetByFunction "ptr option"
  | CallGetByFunctionUID string
  | CallTouchByAddress string
  | CallGetFuncSvc "ptr option" int int
  | CallDeleteEntry "ptr option"
  | CallDeleteOld "ptr option" Duration
  | CallListOld Duration
  | CallListOldForPool Duration
  | CallLog

fun step :: "(ObjectMeta \<Rightarrow> string) \<Rightarrow> Time \<Rightarrow> call \<Rightarrow> world \<Rightarrow> world" where
  "step CacheKey now (CallAdd fsvc) w = snd (Add CacheKey now fsvc w)"
| "step CacheKey now (CallAddFunc fsvc requestsPerPod) w = snd (AddFunc CacheKey now fsvc requestsPerPod w)"
| "step CacheKey now (CallGetByFunction m) w = snd (GetByFunction CacheKey now m w)"
| "step CacheKey now (CallGetByFunctionUID uid) w = snd (GetByFunctionUID CacheKey now uid w)"
| "step CacheKey now (CallTouchByAddress addr) w = snd (TouchByAddress CacheKey now addr w)"
| "step CacheKey now (CallGetFuncSvc m requestsPerPod concurrency) w =
     snd (GetFuncSvc CacheKey now m requestsPerPod concurrency w)"
| "step CacheKey now (CallDeleteEntry fsvc) w = snd (DeleteEntry CacheKey fsvc w)"
| "step CacheKey now (CallDeleteOld fsvc minAge) w = snd (DeleteOld CacheKey now fsvc minAge w)"
| "step CacheKey now (CallListOld a) w = snd (ListOld CacheKey now a w)"
| "step CacheKey now (CallListOldForPool a) w = snd (ListOldForPool CacheKey now a w)"
| "step CacheKey now (CallLog) w = snd (Log CacheKey now w)"

fun run :: "(ObjectMeta \<Rightarrow> string) \<Rightarrow> Time \<Rightarrow> (nat \<times> call) list \<Rightarrow> world \<Rightarrow> world" where
  "run CacheKey t [] w = w"
| "run CacheKey t ((d, c) # cs) w = run CacheKey (t + int d) cs (step CacheKey (t + int d) c w)"

subsection \<open>Telemetry attributes: what is emitted\<close>

definition attribute :: "KeyValue list \<Rightarrow> string \<Rightarrow> string option" where
  "attribute kvs k = map_option Value (find (\<lambda>kv. Key kv = k) kvs)"

subsection \<open>A small process to run the operations on\<close>

text \<open>
  Two functions, one environment and one backing array, each at address 1 or 2, in a
  process that has allocated no \<^verbatim>\<open>FuncSvc\<close> yet; \<open>keyOf\<close> is a key
  "derived from namespace, name and resource version", as the spec describes the function
  key.
\<close>

definition keyOf :: "ObjectMeta \<Rightarrow> string" where
  "keyOf m = Namespace m @ ''/'' @ ObjectMeta.Name m @ ''/'' @ ResourceVersion m"

definition fn1 :: ObjectMeta where
  "fn1 = \<lparr>ObjectMeta.Name = ''f1'', Namespace = ''default'', UID = ''u1'', ResourceVersion = ''7''\<rparr>"

definition fn2 :: ObjectMeta where
  "fn2 = \<lparr>ObjectMeta.Name = ''f2'', Namespace = ''default'', UID = ''u2'', ResourceVersion = ''3''\<rparr>"

definition env1 :: ObjectMeta where
  "env1 = \<lparr>ObjectMeta.Name = ''python'', Namespace = ''default'', UID = ''e1'', ResourceVersion = ''1''\<rparr>"

definition zeroFuncSvc :: FuncSvc where
  "zeroFuncSvc =
     \<lparr>FuncSvc.Name = [], Function = None, Environment = None, Address = [],
      KubernetesObjects = \<lparr>array = 0, len = 0\<rparr>, Executor = [], CPULimit = ''0'',
      Ctime = 0, Atime = 0\<rparr>"

definition svc1 :: FuncSvc where
  "svc1 =
     \<lparr>FuncSvc.Name = ''f1'', Function = Some 1, Environment = Some 1, Address = ''10.0.0.1:8080'',
      KubernetesObjects = \<lparr>array = 1, len = 1\<rparr>, Executor = ''poolmgr'', CPULimit = ''1'',
      Ctime = 0, Atime = 0\<rparr>"

definition svc2 :: FuncSvc where
  "svc2 =
     \<lparr>FuncSvc.Name = ''f2'', Function = Some 2, Environment = None, Address = ''10.0.0.1:8080'',
      KubernetesObjects = \<lparr>array = 0, len = 0\<rparr>, Executor = ''poolmgr'', CPULimit = ''1'',
      Ctime = 0, Atime = 0\<rparr>"

definition process :: world where
  "process =
     \<lparr>funcSvcs = (\<lambda>p. zeroFuncSvc),
      objectMetas = (\<lambda>p. if p = 1 then fn1 else fn2),
      environments = (\<lambda>p. env1),
      arrays = (\<lambda>p. if p = 1 then [\<lparr>Kind = ''Pod'', ObjectReference.Name = ''pod-1''\<rparr>] else []),
      nextFuncSvc = 0,
      byFunction = [], byAddress = [], byFunctionUID = [], connFunctionCache = [],
      serving = False, logged = [], FuncRunningSummary = []\<rparr>"

text \<open>
  \<open>added\<close>: the cache after \<^verbatim>\<open>Add(svc1)\<close> at time 100. \<open>shared\<close>: after a second
  \<^verbatim>\<open>Add\<close>, at time 150, of a service of another function at the same address.
  \<open>orphaned\<close>: after \<^verbatim>\<open>DeleteEntry\<close> of the first service, which takes the shared
  address out of \<^verbatim>\<open>byAddress\<close>. \<open>dangling\<close>: the cache as the serializer finds it
  when it takes a \<^verbatim>\<open>LISTOLD\<close> request while another goroutine is inside
  \<^verbatim>\<open>DeleteEntry\<close> of the only service, between its removal from \<^verbatim>\<open>byFunction\<close>
  and its removal from \<^verbatim>\<open>byFunctionUID\<close> (\<^verbatim>\<open>DeleteEntry\<close> does not go through the
  serializer).
\<close>

definition added :: world where
  "added = snd (Add keyOf 100 svc1 (MakeFunctionServiceCache process))"

definition shared :: world where
  "shared = snd (Add keyOf 150 svc2 added)"

definition orphaned :: world where
  "orphaned = snd (DeleteEntry keyOf (Some 0) shared)"

definition dangling :: world where
  "dangling = added\<lparr>byFunction := snd (cache_Delete (keyOf fn1) (byFunction added))\<rparr>"

text \<open>An index whose \<^verbatim>\<open>Delete\<close> answers with an error and removes nothing.\<close>

definition refuse :: "string \<Rightarrow> (string \<times> 'v) list \<Rightarrow> error option \<times> (string \<times> 'v) list" where
  "refuse key c = (Some (MakeError ErrorInternal ''refused''), c)"

subsection \<open>A caller and the slice of a record\<close>

text \<open>A caller that holds \<^verbatim>\<open>fsvc\<close> reads \<^verbatim>\<open>fsvc.KubernetesObjects\<close> (\<open>elements\<close>)
  and assigns \<^verbatim>\<open>fsvc.KubernetesObjects[i] = v\<close>, for an \<open>i\<close> below the length of the
  slice (\<open>assignElement\<close>).\<close>

definition assignElement :: "ptr \<Rightarrow> nat \<Rightarrow> ObjectReference \<Rightarrow> world \<Rightarrow> world" where
  "assignElement fsvc i v w =
     (let a = array (KubernetesObjects (funcSvcs w fsvc))
      in w\<lparr>arrays := (arrays w)(a := (arrays w a)[i := v])\<rparr>)"

definition elements :: "world \<Rightarrow> ptr \<Rightarrow> ObjectReference list" where
  "elements w fsvc =
     take (len (KubernetesObjects (funcSvcs w fsvc)))
       (arrays w (array (KubernetesObjects (funcSvcs w fsvc))))"

subsection \<open>Well-formed memory\<close>

text \<open>
  The structs the cache points to were allocated: their addresses lie below the next free
  one. \<open>pooled\<close> are the pointers held by the pool cache.
\<close>

definition pooled :: "PoolCache \<Rightarrow> ptr list" where
  "pooled c = concat (map (\<lambda>(key, g). map (\<lambda>(a, i). val i) (svcs g)) c)"

definition cached :: "world \<Rightarrow> ptr list" where
  "cached w = map snd (byFunction w) @ pooled (connFunctionCache w)"

definition wellFormed :: "world \<Rightarrow> bool" where
  "wellFormed w = (\<forall>p \<in> set (cached w). p < nextFuncSvc w)"

subsection \<open>A disk and a pool to dump\<close>








subsection \<open>Times in order\<close>

text \<open>\<open>timesOrdered t w\<close>: in \<open>w\<close>, read at time \<open>t\<close>, no record of the cache was
  created after it was last accessed, or accessed after \<open>t\<close>. \<open>calls\<close> is a sequence of
  calls to run, each with the nanoseconds that pass before it.\<close>

definition timesOrdered :: "Time \<Rightarrow> world \<Rightarrow> bool" where
  "timesOrdered t w =
     (wellFormed w \<and>
      (\<forall>p \<in> set (cached w).
         Ctime (funcSvcs w p) \<le> Atime (funcSvcs w p) \<and> Atime (funcSvcs w p) \<le> t))"

definition calls :: "(nat \<times> call) list" where
  "calls = [(100, CallAdd svc1), (50, CallAddFunc svc2 1), (10, CallGetByFunction (Some 1)),
            (5, CallGetFuncSvc (Some 2) 1 1)]"

section \<open>Properties\<close>

subsection \<open>The index\<close>

lemma cache_Get_Inr_iff: "cache_Get k c = Inr v \<longleftrightarrow> map_of c k = Some v"
  by (simp add: cache_Get_def split: option.splits)

lemma cache_Get_Inl_iff:
  "cache_Get k c = Inl e \<longleftrightarrow> map_of c k = None \<and> e = MakeError ErrorNotFound ''key not found''"
  by (auto simp: cache_Get_def split: option.splits)

lemma cache_Get_mem: "cache_Get k c = Inr v \<Longrightarrow> (k, v) \<in> set c"
  by (simp add: cache_Get_Inr_iff map_of_SomeD)

lemma cache_Set_bound:
  "cache_Get k c = Inr old \<Longrightarrow>
   cache_Set k v c = ((Some old, Some (MakeError ErrorNameExists ''key already exists'')), c)"
  by (simp add: cache_Get_Inr_iff cache_Set_def)

lemma cache_Set_unbound:
  "cache_Get k c = Inl e \<Longrightarrow> cache_Set k v c = ((None, None), c @ [(k, v)])"
  by (simp add: cache_Get_Inl_iff cache_Set_def)

lemma cache_Get_append_new:
  "cache_Get k c = Inl e \<Longrightarrow> cache_Get k' (c @ [(k, v)]) = (if k' = k then Inr v else cache_Get k' c)"
  by (auto simp: cache_Get_def map_add_def split: option.splits)

lemma cache_Get_Delete:
  "cache_Get k' (snd (cache_Delete k c)) =
     (if k' = k then Inl (MakeError ErrorNotFound ''key not found'') else cache_Get k' c)"
  by (induction c) (auto simp: cache_Get_def cache_Delete_def split: option.splits)

subsection \<open>The small process, run\<close>

lemmas run_simps = Add_def new_def assign_def cache_Set_def cache_Get_def cache_Delete_def
  MakeFunctionServiceCache_def process_def svc1_def svc2_def fn1_def fn2_def keyOf_def
  secondary_def MakeError_def Let_def TouchByAddress_def request_def service_def
  touchByAddress_def zap_def cache_Copy_def

lemma added_eval:
  "byFunction added = [(''default/f1/7'', 0)]"
  "byFunctionUID added = [(''u1'', fn1)]"
  "byAddress added = [(''10.0.0.1:8080'', fn1)]"
  "connFunctionCache added = []"
  "serving added" "nextFuncSvc added = 1"
  "funcSvcs added 0 = svc1\<lparr>Ctime := 100, Atime := 100\<rparr>"
  "objectMetas added = objectMetas process"
  by (simp_all add: added_def run_simps)

subsection \<open>A dangling reference met by the serializer\<close>

lemma listOld_dangling:
  "(uid, m) \<in> set fscs \<Longrightarrow> cache_Get (CacheKey m) (byFunction w) = Inl e \<Longrightarrow>
   \<exists>e'. listOld CacheKey now a w fscs acc = Inl e'"
proof (induction fscs arbitrary: acc)
  case Nil
  then show ?case by simp
next
  case (Cons x fscs)
  obtain u' m' where x: "x = (u', m')" by (cases x)
  show ?case
  proof (cases "cache_Get (CacheKey m') (byFunction w)")
    case (Inl e2)
    then show ?thesis by (simp add: x)
  next
    case (Inr p)
    with Cons.prems x have "(uid, m) \<in> set fscs" by auto
    from Cons.IH [OF this Cons.prems(2)] show ?thesis by (simp add: x Inr)
  qed
qed

lemma service_dangling:
  assumes "(uid, m) \<in> set (byFunctionUID w)"
    and "cache_Get (CacheKey m) (byFunction w) = Inl e"
  shows "service CacheKey now \<lparr>requestType = LISTOLD, address = [], age = a\<rparr> w =
         (None, (zap Err ''error while getting service'' [] w)\<lparr>serving := False\<rparr>)"
proof -
  from assms listOld_dangling [where CacheKey = CacheKey and m = m and acc = "[]"]
  obtain e' where "listOld CacheKey now a w (byFunctionUID w) [] = Inl e'" by blast
  then show ?thesis by (simp add: service_def cache_Copy_def)
qed

lemma ListOld_dangling:
  assumes "serving w" and "(uid, m) \<in> set (byFunctionUID w)"
    and "cache_Get (CacheKey m) (byFunction w) = Inl e"
  shows "ListOld CacheKey now a w =
         (Blocks, (zap Err ''error while getting service'' [] w)\<lparr>serving := False\<rparr>)"
  using assms service_dangling [where CacheKey = CacheKey and m = m and w = w]
  by (simp add: ListOld_def request_def)

lemma request_not_serving: "\<not> serving w \<Longrightarrow> request CacheKey now req w = (Blocks, w)"
  by (simp add: request_def)

lemma not_serving_blocks:
  assumes "\<not> serving w"
  shows "TouchByAddress CacheKey now addr w = (Blocks, w)"
    and "ListOld CacheKey now a w = (Blocks, w)"
    and "ListOldForPool CacheKey now a w = (Blocks, w)"
    and "fst (Log CacheKey now w) = Blocks"
  using assms
  by (simp_all add: TouchByAddress_def ListOld_def ListOldForPool_def Log_def
      request_not_serving zap_def)

text \<open>
  C1. The claim: a dangling reference met by \<^verbatim>\<open>ListOld\<close> aborts the scan, the caller
  receives an error, and later \<^verbatim>\<open>TouchByAddress\<close>, \<^verbatim>\<open>ListOld\<close>,
  \<^verbatim>\<open>ListOldForPool\<close> and \<^verbatim>\<open>Log\<close> requests still get a response. The code, run on
  \<open>dangling\<close>: the \<^verbatim>\<open>return\<close> in the \<^verbatim>\<open>LISTOLD\<close> case leaves \<^verbatim>\<open>service\<close>
  before any response is sent, so the caller of \<^verbatim>\<open>ListOld\<close> gets neither the list nor
  an error, the goroutine is gone, and each of the four later requests is left waiting.
\<close>

theorem ListOld_dangling_reference_ends_service:
  "(let stopped = snd (ListOld keyOf 200 60 dangling)
    in fst (ListOld keyOf 200 60 dangling) = Blocks \<and>
       serving dangling \<and> \<not> serving stopped \<and>
       fst (TouchByAddress keyOf 300 ''10.0.0.1:8080'' stopped) = Blocks \<and>
       fst (ListOld keyOf 300 60 stopped) = Blocks \<and>
       fst (ListOldForPool keyOf 300 60 stopped) = Blocks \<and>
       fst (Log keyOf 300 stopped) = Blocks)"
proof -
  have s: "serving dangling" by (simp add: dangling_def added_eval)
  have u: "(''u1'', fn1) \<in> set (byFunctionUID dangling)" by (simp add: dangling_def added_eval)
  have g: "cache_Get (keyOf fn1) (byFunction dangling) = Inl (MakeError ErrorNotFound ''key not found'')"
    by (simp add: dangling_def cache_Get_Delete)
  have L: "ListOld keyOf 200 60 dangling =
      (Blocks, (zap Err ''error while getting service'' [] dangling)\<lparr>serving := False\<rparr>)"
    using s u g by (rule ListOld_dangling [where CacheKey = keyOf and m = fn1])
  have n: "\<not> serving (snd (ListOld keyOf 200 60 dangling))" by (simp add: L zap_def)
  show ?thesis
    using s n by (simp add: Let_def not_serving_blocks) (simp add: L)
qed

subsection \<open>Telemetry attributes\<close>

text \<open>
  C8. \<^verbatim>\<open>GetAttributesForFuncSvc\<close> emits no key other than \<^verbatim>\<open>function-name\<close>,
  \<^verbatim>\<open>function-namespace\<close>, \<^verbatim>\<open>environment-name\<close>, \<^verbatim>\<open>environment-namespace\<close> and
  \<^verbatim>\<open>address\<close>, and no key twice. A nil \<^verbatim>\<open>FuncSvc\<close> gives no attribute; the two
  function keys are emitted, with the function's name and namespace, exactly when
  \<^verbatim>\<open>Function\<close> is not nil, the two environment keys exactly when \<^verbatim>\<open>Environment\<close> is
  not nil, and \<^verbatim>\<open>address\<close> exactly when \<^verbatim>\<open>Address\<close> is not empty: what is nil or
  empty is left out, and nothing is emitted in its place.
\<close>

theorem GetAttributesForFuncSvc_emits:
  "GetAttributesForFuncSvc w None = [] \<and>
   (let kvs = GetAttributesForFuncSvc w (Some p); f = funcSvcs w p
    in set (map Key kvs) \<subseteq>
         {''function-name'', ''function-namespace'', ''environment-name'',
          ''environment-namespace'', ''address''} \<and>
       distinct (map Key kvs) \<and>
       attribute kvs ''function-name'' =
         map_option (\<lambda>m. ObjectMeta.Name (objectMetas w m)) (Function f) \<and>
       attribute kvs ''function-namespace'' =
         map_option (\<lambda>m. Namespace (objectMetas w m)) (Function f) \<and>
       attribute kvs ''environment-name'' =
         map_option (\<lambda>e. ObjectMeta.Name (environments w e)) (Environment f) \<and>
       attribute kvs ''environment-namespace'' =
         map_option (\<lambda>e. Namespace (environments w e)) (Environment f) \<and>
       attribute kvs ''address'' = (if Address f = [] then None else Some (Address f)))"
  by (cases "Function (funcSvcs w p)"; cases "Environment (funcSvcs w p)")
     (simp_all add: GetAttributesForFuncSvc_def attribute_def Let_def)

theorem GetAttributesForFuncSvc_emits_witness:
  "(let kvs = GetAttributesForFuncSvc (snd (new svc2 process)) (Some 0)
    in attribute kvs ''function-name'' = Some ''f2'' \<and>
       attribute kvs ''environment-name'' = None \<and>
       attribute kvs ''address'' = Some ''10.0.0.1:8080'')"
  using GetAttributesForFuncSvc_emits [of "snd (new svc2 process)" 0]
  by (simp add: Let_def new_def process_def svc2_def fn2_def)

subsection \<open>Add on a function key that is bound\<close>

lemma shared_eval:
  "fst (Add keyOf 150 svc2 added) = Returns (None, None)"
  "byFunction shared = [(''default/f1/7'', 0), (''default/f2/3'', 1)]"
  "byFunctionUID shared = [(''u1'', fn1)]"
  "byAddress shared = [(''10.0.0.1:8080'', fn1)]"
  "connFunctionCache shared = []"
  "serving shared" "nextFuncSvc shared = 2"
  "funcSvcs shared 0 = svc1\<lparr>Ctime := 100, Atime := 100\<rparr>"
  "funcSvcs shared (Suc 0) = svc2\<lparr>Ctime := 150, Atime := 150\<rparr>"
  "objectMetas shared = objectMetas process"
  by (simp_all add: shared_def added_eval Add_def new_def assign_def cache_Set_def
      process_def svc2_def fn1_def fn2_def keyOf_def secondary_def MakeError_def Let_def)

lemma orphaned_eval:
  "byFunction orphaned = [(''default/f2/3'', 1)]"
  "byFunctionUID orphaned = []"
  "byAddress orphaned = []"
  "connFunctionCache orphaned = []"
  "serving orphaned" "nextFuncSvc orphaned = 2"
  "funcSvcs orphaned (Suc 0) = svc2\<lparr>Ctime := 150, Atime := 150\<rparr>"
  "objectMetas orphaned = objectMetas process"
  by (simp_all add: orphaned_def shared_eval DeleteEntry_def DeleteEntryVia_def cache_Delete_def
      logIfErr_def process_def svc1_def fn1_def keyOf_def Let_def)

lemma bound_allocated:
  assumes "wellFormed w" and "cache_Get k (byFunction w) = Inr f"
  shows "f < nextFuncSvc w"
proof -
  from assms(2) have "(k, f) \<in> set (byFunction w)" by (rule cache_Get_mem)
  then have "f \<in> set (cached w)" by (force simp: cached_def)
  with assms(1) show ?thesis by (simp add: wellFormed_def)
qed

lemma Add_bound_unfold:
  assumes wf: "wellFormed w"
    and fn: "Function param = Some fn"
    and bound: "cache_Get (CacheKey (objectMetas w fn)) (byFunction w) = Inr f"
  shows "Add CacheKey now param w =
     (case TouchByAddress CacheKey now (Address (funcSvcs w f)) (snd (new param w)) of
        (Returns (Some err2), w2) \<Rightarrow> (Returns (None, Some err2), w2)
      | (Returns None, w2) \<Rightarrow>
          (case new (funcSvcs w2 f) w2 of (fCopy, w3) \<Rightarrow> (Returns (Some fCopy, None), w3))
      | (Panics, w2) \<Rightarrow> (Panics, w2)
      | (Blocks, w2) \<Rightarrow> (Blocks, w2))"
proof -
  have lt: "f < nextFuncSvc w" using wf bound by (rule bound_allocated)
  show ?thesis
    using fn lt
    by (simp add: Add_def new_def cache_Set_bound [OF bound] MakeError_def)
qed

lemma TouchByAddress_fails:
  assumes "serving w"
    and "cache_Get addr (byAddress w) = Inl e \<or>
         (\<exists>m. cache_Get addr (byAddress w) = Inr m \<and> cache_Get (CacheKey m) (byFunction w) = Inl e)"
  shows "TouchByAddress CacheKey now addr w = (Returns (Some e), w)"
  using assms
  by (auto simp: TouchByAddress_def request_def service_def touchByAddress_def)

lemma TouchByAddress_succeeds:
  assumes "serving w"
    and "cache_Get addr (byAddress w) = Inr m"
    and "cache_Get (CacheKey m) (byFunction w) = Inr g"
  shows "TouchByAddress CacheKey now addr w =
         (Returns None, assign g ((funcSvcs w g)\<lparr>Atime := now\<rparr>) w)"
  using assms
  by (auto simp: TouchByAddress_def request_def service_def touchByAddress_def)

text \<open>
  C10. When \<^verbatim>\<open>Add\<close> finds the function key bound, and the address of the existing
  record is absent from \<^verbatim>\<open>byAddress\<close>, or leads there to a function whose key is absent
  from \<^verbatim>\<open>byFunction\<close>, the touch fails and \<^verbatim>\<open>Add\<close> returns nil and that error, a
  \<^verbatim>\<open>NotFound\<close>: the existing record is not returned, and the result has the shape of a
  failed insert. No index changes, and the existing record keeps its \<^verbatim>\<open>Atime\<close>. (The
  serializer is serving: the touch is a request to it.)
\<close>

theorem Add_bound_touch_fails:
  assumes "wellFormed w" and "serving w"
    and "Function param = Some fn"
    and "cache_Get (CacheKey (objectMetas w fn)) (byFunction w) = Inr f"
    and "cache_Get (Address (funcSvcs w f)) (byAddress w) = Inl e \<or>
         (\<exists>m. cache_Get (Address (funcSvcs w f)) (byAddress w) = Inr m \<and>
              cache_Get (CacheKey m) (byFunction w) = Inl e)"
  shows "fst (Add CacheKey now param w) = Returns (None, Some e) \<and>
         IsNotFoundError e \<and>
         byFunction (snd (Add CacheKey now param w)) = byFunction w \<and>
         byAddress (snd (Add CacheKey now param w)) = byAddress w \<and>
         byFunctionUID (snd (Add CacheKey now param w)) = byFunctionUID w \<and>
         funcSvcs (snd (Add CacheKey now param w)) f = funcSvcs w f"
proof -
  let ?w1 = "snd (new param w)"
  have lt: "f < nextFuncSvc w" using assms(1,4) by (rule bound_allocated)
  have s1: "serving ?w1" using assms(2) by (simp add: new_def)
  have f1: "cache_Get (Address (funcSvcs w f)) (byAddress ?w1) = Inl e \<or>
         (\<exists>m. cache_Get (Address (funcSvcs w f)) (byAddress ?w1) = Inr m \<and>
              cache_Get (CacheKey m) (byFunction ?w1) = Inl e)"
    using assms(5) by (simp add: new_def)
  have T: "TouchByAddress CacheKey now (Address (funcSvcs w f)) ?w1 = (Returns (Some e), ?w1)"
    using s1 f1 by (rule TouchByAddress_fails)
  have A: "Add CacheKey now param w = (Returns (None, Some e), ?w1)"
    using assms(1,3,4) by (simp add: Add_bound_unfold [where CacheKey = CacheKey and f = f] T)
  have nf: "IsNotFoundError e"
    using assms(5) by (auto simp: cache_Get_Inl_iff MakeError_def)
  show ?thesis using lt nf by (simp add: A new_def)
qed

theorem Add_bound_touch_fails_witness:
  "fst (Add keyOf 300 svc2 orphaned) = Returns (None, Some (MakeError ErrorNotFound ''key not found'')) \<and>
   byFunction (snd (Add keyOf 300 svc2 orphaned)) = [(''default/f2/3'', 1)]"
proof -
  have 1: "wellFormed orphaned" by (simp add: wellFormed_def cached_def pooled_def orphaned_eval)
  have 2: "serving orphaned" by (simp add: orphaned_eval)
  have 3: "Function svc2 = Some 2" by (simp add: svc2_def)
  have 4: "cache_Get (keyOf (objectMetas orphaned 2)) (byFunction orphaned) = Inr 1"
    by (simp add: orphaned_eval cache_Get_def process_def keyOf_def fn2_def)
  have 5: "cache_Get (Address (funcSvcs orphaned 1)) (byAddress orphaned) =
             Inl (MakeError ErrorNotFound ''key not found'') \<or>
         (\<exists>m. cache_Get (Address (funcSvcs orphaned 1)) (byAddress orphaned) = Inr m \<and>
              cache_Get (keyOf m) (byFunction orphaned) = Inl (MakeError ErrorNotFound ''key not found''))"
    by (simp add: orphaned_eval cache_Get_def)
  from Add_bound_touch_fails [where CacheKey = keyOf, OF 1 2 3 4 5, of 300]
  show ?thesis by (simp add: orphaned_eval)
qed

lemma Add_bound_failed_eq:
  assumes "wellFormed w" and "serving w"
    and "Function param = Some fn"
    and "cache_Get (CacheKey (objectMetas w fn)) (byFunction w) = Inr f"
    and "cache_Get (Address (funcSvcs w f)) (byAddress w) = Inl e \<or>
         (\<exists>m. cache_Get (Address (funcSvcs w f)) (byAddress w) = Inr m \<and>
              cache_Get (CacheKey m) (byFunction w) = Inl e)"
  shows "Add CacheKey now param w = (Returns (None, Some e), snd (new param w))"
proof -
  let ?w1 = "snd (new param w)"
  have s1: "serving ?w1" using assms(2) by (simp add: new_def)
  have f1: "cache_Get (Address (funcSvcs w f)) (byAddress ?w1) = Inl e \<or>
         (\<exists>m. cache_Get (Address (funcSvcs w f)) (byAddress ?w1) = Inr m \<and>
              cache_Get (CacheKey m) (byFunction ?w1) = Inl e)"
    using assms(5) by (simp add: new_def)
  have T: "TouchByAddress CacheKey now (Address (funcSvcs w f)) ?w1 = (Returns (Some e), ?w1)"
    using s1 f1 by (rule TouchByAddress_fails)
  show ?thesis
    using assms(1,3,4) by (simp add: Add_bound_unfold [where CacheKey = CacheKey and f = f] T)
qed

lemma Add_bound_touched_eq:
  assumes "wellFormed w" and "serving w"
    and "Function param = Some fn"
    and "cache_Get (CacheKey (objectMetas w fn)) (byFunction w) = Inr f"
    and "cache_Get (Address (funcSvcs w f)) (byAddress w) = Inr m"
    and "cache_Get (CacheKey m) (byFunction w) = Inr g"
  shows "Add CacheKey now param w =
     (Returns (Some (Suc (nextFuncSvc w)), None),
      w\<lparr>funcSvcs := (funcSvcs w)
           (nextFuncSvc w := param,
            g := (funcSvcs w g)\<lparr>Atime := now\<rparr>,
            Suc (nextFuncSvc w) := (if f = g then (funcSvcs w f)\<lparr>Atime := now\<rparr> else funcSvcs w f)),
        nextFuncSvc := Suc (Suc (nextFuncSvc w))\<rparr>)"
proof -
  let ?w1 = "snd (new param w)"
  have ltf: "f < nextFuncSvc w" using assms(1,4) by (rule bound_allocated)
  have ltg: "g < nextFuncSvc w" using assms(1,6) by (rule bound_allocated)
  have s1: "serving ?w1" using assms(2) by (simp add: new_def)
  have a1: "cache_Get (Address (funcSvcs w f)) (byAddress ?w1) = Inr m"
    using assms(5) by (simp add: new_def)
  have g1: "cache_Get (CacheKey m) (byFunction ?w1) = Inr g"
    using assms(6) by (simp add: new_def)
  have T: "TouchByAddress CacheKey now (Address (funcSvcs w f)) ?w1 =
           (Returns None, assign g ((funcSvcs ?w1 g)\<lparr>Atime := now\<rparr>) ?w1)"
    using s1 a1 g1 by (rule TouchByAddress_succeeds)
  have A: "Add CacheKey now param w =
      (case new (funcSvcs (assign g ((funcSvcs ?w1 g)\<lparr>Atime := now\<rparr>) ?w1) f)
              (assign g ((funcSvcs ?w1 g)\<lparr>Atime := now\<rparr>) ?w1) of
         (fCopy, w3) \<Rightarrow> (Returns (Some fCopy, None), w3))"
    using assms(1,3,4) by (simp add: Add_bound_unfold [where CacheKey = CacheKey and f = f] T)
  show ?thesis
    using ltf ltg by (simp add: A new_def assign_def)
qed

lemma wellFormed_examples: "wellFormed added" "wellFormed shared" "wellFormed orphaned"
  by (simp_all add: wellFormed_def cached_def pooled_def added_eval shared_eval orphaned_eval)

text \<open>
  C2, as the code has it. When \<^verbatim>\<open>Add\<close> finds the function key bound, the serializer is
  serving, and \<^verbatim>\<open>byAddress\<close> leads from the address of the existing record to a
  function whose key is bound in \<^verbatim>\<open>byFunction\<close>, to a record \<open>g\<close>: \<^verbatim>\<open>Add\<close>
  returns the address of a new struct, a copy of the existing record, which is in no index
  (nor is the argument); no index changes; and the \<^verbatim>\<open>Atime\<close> of \<open>g\<close> is the time of
  the call. The existing record is refreshed when it is \<open>g\<close> itself, and keeps its
  \<^verbatim>\<open>Atime\<close> otherwise.
\<close>

theorem Add_bound_returns_copy:
  assumes "wellFormed w" and "serving w"
    and "Function param = Some fn"
    and "cache_Get (CacheKey (objectMetas w fn)) (byFunction w) = Inr f"
    and "cache_Get (Address (funcSvcs w f)) (byAddress w) = Inr m"
    and "cache_Get (CacheKey m) (byFunction w) = Inr g"
  shows "fst (Add CacheKey now param w) = Returns (Some (Suc (nextFuncSvc w)), None) \<and>
         (let w' = snd (Add CacheKey now param w)
          in Suc (nextFuncSvc w) \<notin> set (cached w') \<and> nextFuncSvc w \<notin> set (cached w') \<and>
             byFunction w' = byFunction w \<and> byAddress w' = byAddress w \<and>
             byFunctionUID w' = byFunctionUID w \<and>
             connFunctionCache w' = connFunctionCache w \<and>
             funcSvcs w' g = (funcSvcs w g)\<lparr>Atime := now\<rparr> \<and>
             funcSvcs w' f = (if f = g then (funcSvcs w f)\<lparr>Atime := now\<rparr> else funcSvcs w f) \<and>
             funcSvcs w' (Suc (nextFuncSvc w)) = funcSvcs w' f)"
proof -
  have ltf: "f < nextFuncSvc w" using assms(1,4) by (rule bound_allocated)
  have ltg: "g < nextFuncSvc w" using assms(1,6) by (rule bound_allocated)
  have fresh: "\<forall>p \<in> set (cached w). p < nextFuncSvc w"
    using assms(1) by (simp add: wellFormed_def)
  have n0: "nextFuncSvc w \<notin> set (cached w)" using fresh by fastforce
  have n1: "Suc (nextFuncSvc w) \<notin> set (cached w)" using fresh by fastforce
  show ?thesis
    using ltf ltg n0 n1
    by (simp add: Add_bound_touched_eq [OF assms] cached_def Let_def)
qed

theorem Add_bound_returns_copy_witness:
  "fst (Add keyOf 300 svc1 added) = Returns (Some 2, None) \<and>
   byFunction (snd (Add keyOf 300 svc1 added)) = [(''default/f1/7'', 0)] \<and>
   funcSvcs (snd (Add keyOf 300 svc1 added)) 0 = svc1\<lparr>Ctime := 100, Atime := 300\<rparr> \<and>
   funcSvcs (snd (Add keyOf 300 svc1 added)) 2 = svc1\<lparr>Ctime := 100, Atime := 300\<rparr>"
proof -
  have 1: "wellFormed added" by (rule wellFormed_examples)
  have 2: "serving added" by (simp add: added_eval)
  have 3: "Function svc1 = Some 1" by (simp add: svc1_def)
  have 4: "cache_Get (keyOf (objectMetas added 1)) (byFunction added) = Inr 0"
    by (simp add: added_eval cache_Get_def process_def keyOf_def fn1_def)
  have 5: "cache_Get (Address (funcSvcs added 0)) (byAddress added) = Inr fn1"
    by (simp add: added_eval cache_Get_def svc1_def)
  have 6: "cache_Get (keyOf fn1) (byFunction added) = Inr 0"
    by (simp add: added_eval cache_Get_def keyOf_def fn1_def)
  have 7: "Suc (Suc 0) = 2" by simp
  from Add_bound_returns_copy [where CacheKey = keyOf, OF 1 2 3 4 5 6, of 300]
  show ?thesis by (simp add: added_eval Let_def 7)
qed

text \<open>
  C2 as stated fails twice. In \<open>orphaned\<close> the key of \<open>svc2\<close> is bound and the address of
  the existing record is not in \<^verbatim>\<open>byAddress\<close>: \<^verbatim>\<open>Add\<close> returns nil and
  \<^verbatim>\<open>NotFound\<close>, not the existing record. In \<open>shared\<close> the address of the existing
  record (at 1) is bound to the other function: \<^verbatim>\<open>Add\<close> returns a copy of the existing
  record, but the touch has refreshed the record at 0, and the existing one and its copy
  keep the \<^verbatim>\<open>Atime\<close> 150.
\<close>

theorem Add_bound_counterexample:
  "cache_Get (keyOf (objectMetas orphaned 2)) (byFunction orphaned) = Inr 1 \<and>
   Function svc2 = Some 2 \<and> serving orphaned \<and>
   fst (Add keyOf 300 svc2 orphaned) =
     Returns (None, Some (MakeError ErrorNotFound ''key not found'')) \<and>
   cache_Get (keyOf (objectMetas shared 2)) (byFunction shared) = Inr 1 \<and>
   serving shared \<and>
   Atime (funcSvcs shared 1) = 150 \<and>
   fst (Add keyOf 300 svc2 shared) = Returns (Some 3, None) \<and>
   Atime (funcSvcs (snd (Add keyOf 300 svc2 shared)) 1) = 150 \<and>
   Atime (funcSvcs (snd (Add keyOf 300 svc2 shared)) 3) = 150 \<and>
   Atime (funcSvcs (snd (Add keyOf 300 svc2 shared)) 0) = 300"
proof -
  have 3: "Function svc2 = Some 2" by (simp add: svc2_def)
  have o4: "cache_Get (keyOf (objectMetas orphaned 2)) (byFunction orphaned) = Inr 1"
    by (simp add: orphaned_eval cache_Get_def process_def keyOf_def fn2_def)
  have o5: "cache_Get (Address (funcSvcs orphaned 1)) (byAddress orphaned) =
             Inl (MakeError ErrorNotFound ''key not found'') \<or>
         (\<exists>m. cache_Get (Address (funcSvcs orphaned 1)) (byAddress orphaned) = Inr m \<and>
              cache_Get (keyOf m) (byFunction orphaned) = Inl (MakeError ErrorNotFound ''key not found''))"
    by (simp add: orphaned_eval cache_Get_def)
  have O: "fst (Add keyOf 300 svc2 orphaned) =
     Returns (None, Some (MakeError ErrorNotFound ''key not found''))"
    using Add_bound_failed_eq [where CacheKey = keyOf, OF wellFormed_examples(3) _ 3 o4 o5, of 300]
    by (simp add: orphaned_eval)
  have s4: "cache_Get (keyOf (objectMetas shared 2)) (byFunction shared) = Inr 1"
    by (simp add: shared_eval cache_Get_def process_def keyOf_def fn2_def fn1_def)
  have s5: "cache_Get (Address (funcSvcs shared 1)) (byAddress shared) = Inr fn1"
    by (simp add: shared_eval cache_Get_def svc2_def)
  have s6: "cache_Get (keyOf fn1) (byFunction shared) = Inr 0"
    by (simp add: shared_eval cache_Get_def keyOf_def fn1_def)
  have S: "Add keyOf 300 svc2 shared =
     (Returns (Some 3, None),
      shared\<lparr>funcSvcs := (funcSvcs shared)
           (2 := svc2, 0 := (funcSvcs shared 0)\<lparr>Atime := 300\<rparr>, 3 := funcSvcs shared 1),
        nextFuncSvc := 4\<rparr>)"
    using Add_bound_touched_eq [where CacheKey = keyOf, OF wellFormed_examples(2) _ 3 s4 s5 s6, of 300]
    by (simp add: shared_eval eval_nat_numeral)
  show ?thesis
    by (simp add: O S o4 s4 3) (simp add: shared_eval orphaned_eval svc1_def svc2_def)
qed

subsection \<open>Add on a function key that is not bound\<close>

text \<open>What \<^verbatim>\<open>Add\<close> does then, in one equation: the argument is stored with both times set
  to the time of the call; \<^verbatim>\<open>byAddress\<close> gets the function when the address is free;
  and \<^verbatim>\<open>byFunctionUID\<close> gets it when its UID is free and the address was free.\<close>

lemma Add_unbound_eq:
  assumes "Function param = Some fn"
    and "cache_Get (CacheKey (objectMetas w fn)) (byFunction w) = Inl e"
  shows "Add CacheKey now param w =
     (Returns (None, None),
      (let m = objectMetas w fn;
           freeA = (map_of (byAddress w) (Address param) = None);
           freeU = (map_of (byFunctionUID w) (UID m) = None)
       in w\<lparr>funcSvcs := (funcSvcs w)(nextFuncSvc w := param\<lparr>Ctime := now, Atime := now\<rparr>),
            nextFuncSvc := Suc (nextFuncSvc w),
            byFunction := byFunction w @ [(CacheKey m, nextFuncSvc w)],
            byAddress := (if freeA then byAddress w @ [(Address param, m)] else byAddress w),
            byFunctionUID := (if freeA \<and> freeU then byFunctionUID w @ [(UID m, m)]
                              else byFunctionUID w)\<rparr>))"
proof -
  from assms(2) have "map_of (byFunction w) (CacheKey (objectMetas w fn)) = None"
    by (simp add: cache_Get_Inl_iff)
  with assms(1) show ?thesis
    by (auto simp: Add_def new_def assign_def cache_Set_def
        secondary_def MakeError_def Let_def split: option.splits)
qed

text \<open>
  C3. The claim: with the function key not bound, \<^verbatim>\<open>Add\<close> returns (nil, nil), sets both
  times of the stored record to the time of the call and populates all three indices, a
  collision on a secondary index being no error. The code, run on \<open>added\<close> with a service
  of another function at the address that is already bound: it returns (nil, nil) and
  \<^verbatim>\<open>byFunction\<close> has the record, but the collision on \<^verbatim>\<open>byAddress\<close> makes it
  return before \<^verbatim>\<open>byFunctionUID\<close> is set, so the UID of the function is bound to
  nothing and \<^verbatim>\<open>GetByFunctionUID\<close> does not find the service just added;
  \<^verbatim>\<open>byAddress\<close> still leads to the other function.
\<close>

theorem Add_address_collision_skips_byFunctionUID:
  "Function svc2 = Some 2 \<and> objectMetas added 2 = fn2 \<and> UID fn2 = ''u2'' \<and>
   cache_Get (keyOf fn2) (byFunction added) = Inl (MakeError ErrorNotFound ''key not found'') \<and>
   fst (Add keyOf 150 svc2 added) = Returns (None, None) \<and>
   cache_Get (keyOf fn2) (byFunction (snd (Add keyOf 150 svc2 added))) = Inr 1 \<and>
   cache_Get (Address svc2) (byAddress (snd (Add keyOf 150 svc2 added))) = Inr fn1 \<and>
   cache_Get ''u2'' (byFunctionUID (snd (Add keyOf 150 svc2 added))) =
     Inl (MakeError ErrorNotFound ''key not found'') \<and>
   fst (GetByFunctionUID keyOf 160 ''u2'' (snd (Add keyOf 150 svc2 added))) =
     Returns (None, Some (MakeError ErrorNotFound ''key not found''))"
  unfolding shared_def [symmetric]
  by (simp add: shared_eval)
     (simp add: shared_eval added_eval GetByFunctionUID_def cache_Get_def
        process_def svc2_def fn1_def fn2_def keyOf_def MakeError_def)

subsection \<open>Removal\<close>

lemma DeleteEntryVia_eq:
  assumes "Function (funcSvcs w p) = Some fn"
  shows "DeleteEntryVia delF delA delU CacheKey (Some p) w =
     (Returns (),
      (let f = funcSvcs w p; m = objectMetas w fn;
           rF = delF (CacheKey m) (byFunction w);
           rA = delA (Address f) (byAddress w);
           rU = delU (UID m) (byFunctionUID w)
       in w\<lparr>byFunction := snd rF, byAddress := snd rA, byFunctionUID := snd rU,
            logged := logged w @
              concat (map (\<lambda>e. if e \<noteq> None then [(Err, ''error deleting function service'', [])]
                                 else [])
                        [fst rF, fst rA, fst rU]),
            FuncRunningSummary := FuncRunningSummary w @
              [(ObjectMeta.Name m, Namespace m, Sub (Atime f) (Ctime f))]\<rparr>))"
proof -
  obtain e1 c1 where 1: "delF (CacheKey (objectMetas w fn)) (byFunction w) = (e1, c1)"
    by (cases "delF (CacheKey (objectMetas w fn)) (byFunction w)")
  obtain e2 c2 where 2: "delA (Address (funcSvcs w p)) (byAddress w) = (e2, c2)"
    by (cases "delA (Address (funcSvcs w p)) (byAddress w)")
  obtain e3 c3 where 3: "delU (UID (objectMetas w fn)) (byFunctionUID w) = (e3, c3)"
    by (cases "delU (UID (objectMetas w fn)) (byFunctionUID w)")
  show ?thesis
    using assms
    by (cases e1; cases e2; cases e3)
       (simp_all add: DeleteEntryVia_def logIfErr_def zap_def Let_def 1 2 3)
qed

text \<open>
  C5. \<^verbatim>\<open>DeleteEntry\<close> of a record with a function, whatever the \<^verbatim>\<open>Delete\<close> of each
  index does and answers: each of the three indices is what its own \<^verbatim>\<open>Delete\<close> leaves,
  at the function key, the address and the UID of the record, also after another one has
  answered with an error; the call returns (it has no result, so no error reaches the
  caller); every error is logged and nothing else is; and the metric observes, under the
  name and namespace of the function, \<^verbatim>\<open>Atime.Sub(Ctime)\<close>, which is \<^verbatim>\<open>Atime\<close> minus
  \<^verbatim>\<open>Ctime\<close> within the range of a \<^verbatim>\<open>Duration\<close>.
\<close>

theorem DeleteEntry_swallows_failures:
  assumes "Function (funcSvcs w p) = Some fn"
  shows "fst (DeleteEntryVia delF delA delU CacheKey (Some p) w) = Returns () \<and>
     (let w' = snd (DeleteEntryVia delF delA delU CacheKey (Some p) w);
          f = funcSvcs w p; m = objectMetas w fn;
          rF = delF (CacheKey m) (byFunction w);
          rA = delA (Address f) (byAddress w);
          rU = delU (UID m) (byFunctionUID w)
      in byFunction w' = snd rF \<and> byAddress w' = snd rA \<and> byFunctionUID w' = snd rU \<and>
         logged w' = logged w @
           concat (map (\<lambda>e. if e \<noteq> None then [(Err, ''error deleting function service'', [])]
                              else [])
                     [fst rF, fst rA, fst rU]) \<and>
         FuncRunningSummary w' = FuncRunningSummary w @
           [(ObjectMeta.Name m, Namespace m, Sub (Atime f) (Ctime f))] \<and>
         Sub (Atime f) (Ctime f) = max minDuration (min maxDuration (Atime f - Ctime f)))"
  by (simp add: DeleteEntryVia_eq [OF assms] Let_def Sub_def minDuration_def maxDuration_def)

theorem DeleteEntry_swallows_failures_witness:
  "fst (DeleteEntryVia refuse cache_Delete refuse keyOf (Some 0) added) = Returns () \<and>
   byFunction (snd (DeleteEntryVia refuse cache_Delete refuse keyOf (Some 0) added)) =
     [(''default/f1/7'', 0)] \<and>
   byAddress (snd (DeleteEntryVia refuse cache_Delete refuse keyOf (Some 0) added)) = [] \<and>
   logged (snd (DeleteEntryVia refuse cache_Delete refuse keyOf (Some 0) added)) =
     [(Err, ''error deleting function service'', []), (Err, ''error deleting function service'', [])] \<and>
   FuncRunningSummary (snd (DeleteEntryVia refuse cache_Delete refuse keyOf (Some 0) added)) =
     [(''f1'', ''default'', 0)]"
proof -
  have 1: "Function (funcSvcs added 0) = Some 1" by (simp add: added_eval svc1_def)
  have 2: "logged added = []" "FuncRunningSummary added = []"
    by (simp_all add: added_def run_simps)
  from DeleteEntry_swallows_failures [where CacheKey = keyOf and delF = refuse and delA = cache_Delete
      and delU = refuse, OF 1]
  show ?thesis
    by (simp add: Let_def added_eval 2 refuse_def cache_Delete_def svc1_def process_def fn1_def
        Sub_def minDuration_def maxDuration_def)
qed

lemma DeleteEntry_eq:
  assumes "Function (funcSvcs w p) = Some fn"
  shows "DeleteEntry CacheKey (Some p) w =
     (Returns (),
      (let f = funcSvcs w p; m = objectMetas w fn
       in w\<lparr>byFunction := snd (cache_Delete (CacheKey m) (byFunction w)),
            byAddress := snd (cache_Delete (Address f) (byAddress w)),
            byFunctionUID := snd (cache_Delete (UID m) (byFunctionUID w)),
            FuncRunningSummary := FuncRunningSummary w @
              [(ObjectMeta.Name m, Namespace m, Sub (Atime f) (Ctime f))]\<rparr>))"
  by (simp add: DeleteEntry_def DeleteEntryVia_eq [OF assms] Let_def cache_Delete_def)

text \<open>
  C7. \<^verbatim>\<open>DeleteOld\<close> of a record whose \<^verbatim>\<open>Atime\<close> is less than \<^verbatim>\<open>minAge\<close> ago
  returns (false, nil) and leaves the state as it is. Otherwise, for a record with a
  function, it returns (true, nil); the function key, the address and the UID of the record
  are then bound in no index, every other binding is as before, and the metric has observed
  the lifetime of the record.
\<close>

theorem DeleteOld_by_age:
  "(Since now (Atime (funcSvcs w p)) < minAge \<longrightarrow>
      DeleteOld CacheKey now (Some p) minAge w = (Returns (False, None), w)) \<and>
   (\<not> Since now (Atime (funcSvcs w p)) < minAge \<longrightarrow> Function (funcSvcs w p) = Some fn \<longrightarrow>
      fst (DeleteOld CacheKey now (Some p) minAge w) = Returns (True, None) \<and>
      (let w' = snd (DeleteOld CacheKey now (Some p) minAge w);
           f = funcSvcs w p; m = objectMetas w fn
       in (\<forall>k. cache_Get k (byFunction w') =
                (if k = CacheKey m then Inl (MakeError ErrorNotFound ''key not found'')
                 else cache_Get k (byFunction w))) \<and>
          (\<forall>k. cache_Get k (byAddress w') =
                (if k = Address f then Inl (MakeError ErrorNotFound ''key not found'')
                 else cache_Get k (byAddress w))) \<and>
          (\<forall>k. cache_Get k (byFunctionUID w') =
                (if k = UID m then Inl (MakeError ErrorNotFound ''key not found'')
                 else cache_Get k (byFunctionUID w))) \<and>
          FuncRunningSummary w' = FuncRunningSummary w @
            [(ObjectMeta.Name m, Namespace m, Sub (Atime f) (Ctime f))]))"
proof (intro conjI impI)
  assume "Since now (Atime (funcSvcs w p)) < minAge"
  then show "DeleteOld CacheKey now (Some p) minAge w = (Returns (False, None), w)"
    by (simp add: DeleteOld_def)
next
  assume old: "\<not> Since now (Atime (funcSvcs w p)) < minAge"
    and fn: "Function (funcSvcs w p) = Some fn"
  then show "fst (DeleteOld CacheKey now (Some p) minAge w) = Returns (True, None)"
    by (simp add: DeleteOld_def DeleteEntry_eq [OF fn])
  from old fn show "let w' = snd (DeleteOld CacheKey now (Some p) minAge w);
           f = funcSvcs w p; m = objectMetas w fn
       in (\<forall>k. cache_Get k (byFunction w') =
                (if k = CacheKey m then Inl (MakeError ErrorNotFound ''key not found'')
                 else cache_Get k (byFunction w))) \<and>
          (\<forall>k. cache_Get k (byAddress w') =
                (if k = Address f then Inl (MakeError ErrorNotFound ''key not found'')
                 else cache_Get k (byAddress w))) \<and>
          (\<forall>k. cache_Get k (byFunctionUID w') =
                (if k = UID m then Inl (MakeError ErrorNotFound ''key not found'')
                 else cache_Get k (byFunctionUID w))) \<and>
          FuncRunningSummary w' = FuncRunningSummary w @
            [(ObjectMeta.Name m, Namespace m, Sub (Atime f) (Ctime f))]"
    by (simp add: DeleteOld_def DeleteEntry_eq [OF fn] Let_def cache_Get_Delete)
qed

theorem DeleteOld_by_age_witness:
  "DeleteOld keyOf 120 (Some 0) 60 added = (Returns (False, None), added) \<and>
   fst (DeleteOld keyOf 200 (Some 0) 60 added) = Returns (True, None) \<and>
   cache_Get (keyOf fn1) (byFunction (snd (DeleteOld keyOf 200 (Some 0) 60 added))) =
     Inl (MakeError ErrorNotFound ''key not found'') \<and>
   cache_Get ''10.0.0.1:8080'' (byAddress (snd (DeleteOld keyOf 200 (Some 0) 60 added))) =
     Inl (MakeError ErrorNotFound ''key not found'') \<and>
   cache_Get ''u1'' (byFunctionUID (snd (DeleteOld keyOf 200 (Some 0) 60 added))) =
     Inl (MakeError ErrorNotFound ''key not found'') \<and>
   FuncRunningSummary (snd (DeleteOld keyOf 200 (Some 0) 60 added)) = [(''f1'', ''default'', 0)]"
proof -
  have y: "Since 120 (Atime (funcSvcs added 0)) < 60"
    by (simp add: added_eval Since_def Sub_def minDuration_def maxDuration_def)
  have o: "\<not> Since 200 (Atime (funcSvcs added 0)) < 60"
    by (simp add: added_eval Since_def Sub_def minDuration_def maxDuration_def)
  have fn: "Function (funcSvcs added 0) = Some 1" by (simp add: added_eval svc1_def)
  have e: "FuncRunningSummary added = []" by (simp add: added_def run_simps)
  from DeleteOld_by_age [where CacheKey = keyOf and w = added and p = 0 and now = 120 and minAge = 60]
       DeleteOld_by_age [where CacheKey = keyOf and w = added and p = 0 and now = 200 and minAge = 60
         and fn = 1] y o fn
  show ?thesis
    by (simp add: Let_def added_eval e svc1_def process_def fn1_def
        Sub_def minDuration_def maxDuration_def)
qed

subsection \<open>Lookups\<close>

lemma touchAndCopy_eq:
  "f < nextFuncSvc w \<Longrightarrow>
   touchAndCopy now f w =
     (nextFuncSvc w,
      w\<lparr>funcSvcs := (funcSvcs w)
           (f := (funcSvcs w f)\<lparr>Atime := now\<rparr>,
            nextFuncSvc w := (funcSvcs w f)\<lparr>Atime := now\<rparr>),
        nextFuncSvc := Suc (nextFuncSvc w)\<rparr>)"
  by (simp add: touchAndCopy_def assign_def new_def Let_def)

lemma GetByFunction_eq:
  assumes "wellFormed w" and "cache_Get (CacheKey (objectMetas w mp)) (byFunction w) = Inr f"
  shows "GetByFunction CacheKey now (Some mp) w =
     (Returns (Some (nextFuncSvc w), None),
      w\<lparr>funcSvcs := (funcSvcs w)
           (f := (funcSvcs w f)\<lparr>Atime := now\<rparr>,
            nextFuncSvc w := (funcSvcs w f)\<lparr>Atime := now\<rparr>),
        nextFuncSvc := Suc (nextFuncSvc w)\<rparr>)"
  using bound_allocated [OF assms] assms(2)
  by (simp add: GetByFunction_def touchAndCopy_eq)

lemma GetByFunctionUID_eq:
  assumes "wellFormed w" and "cache_Get uid (byFunctionUID w) = Inr m"
    and "cache_Get (CacheKey m) (byFunction w) = Inr f"
  shows "GetByFunctionUID CacheKey now uid w =
     (Returns (Some (nextFuncSvc w), None),
      w\<lparr>funcSvcs := (funcSvcs w)
           (f := (funcSvcs w f)\<lparr>Atime := now\<rparr>,
            nextFuncSvc w := (funcSvcs w f)\<lparr>Atime := now\<rparr>),
        nextFuncSvc := Suc (nextFuncSvc w)\<rparr>)"
  using bound_allocated [OF assms(1,3)] assms(2,3)
  by (simp add: GetByFunctionUID_def touchAndCopy_eq)

lemma wellFormed_copy:
  assumes "wellFormed w"
  shows "wellFormed (assign (nextFuncSvc w) v
           (w\<lparr>funcSvcs := h, nextFuncSvc := Suc (nextFuncSvc w)\<rparr>))"
  using assms by (auto simp: wellFormed_def cached_def assign_def less_Suc_eq)

lemma GetByFunction_independent:
  assumes "wellFormed w"
    and "cache_Get (CacheKey (objectMetas w mp)) (byFunction w) = Inr f"
  shows "fst (GetByFunction CacheKey now (Some mp) w) = Returns (Some (nextFuncSvc w), None) \<and>
         (let r = nextFuncSvc w; w' = snd (GetByFunction CacheKey now (Some mp) w)
          in r \<notin> set (cached w') \<and> r \<noteq> f \<and>
             funcSvcs w' f = (funcSvcs w f)\<lparr>Atime := now\<rparr> \<and>
             funcSvcs w' r = (funcSvcs w f)\<lparr>Atime := now\<rparr> \<and>
             (\<forall>v later.
                fst (GetByFunction CacheKey later (Some mp) (assign r v w')) =
                  Returns (Some (Suc r), None) \<and>
                funcSvcs (snd (GetByFunction CacheKey later (Some mp) (assign r v w'))) (Suc r) =
                  (funcSvcs w f)\<lparr>Atime := later\<rparr>))"
proof -
  let ?r = "nextFuncSvc w"
  let ?h = "(funcSvcs w)(f := (funcSvcs w f)\<lparr>Atime := now\<rparr>, ?r := (funcSvcs w f)\<lparr>Atime := now\<rparr>)"
  let ?w' = "w\<lparr>funcSvcs := ?h, nextFuncSvc := Suc ?r\<rparr>"
  have lt: "f < ?r" using assms by (rule bound_allocated)
  have fresh: "?r \<notin> set (cached w)" using assms(1) by (fastforce simp: wellFormed_def)
  have G: "GetByFunction CacheKey now (Some mp) w = (Returns (Some ?r, None), ?w')"
    using assms by (rule GetByFunction_eq [where CacheKey = CacheKey])
  have later: "fst (GetByFunction CacheKey later (Some mp) (assign ?r v ?w')) =
                  Returns (Some (Suc ?r), None) \<and>
                funcSvcs (snd (GetByFunction CacheKey later (Some mp) (assign ?r v ?w'))) (Suc ?r) =
                  (funcSvcs w f)\<lparr>Atime := later\<rparr>" for v later
  proof -
    let ?w2 = "assign ?r v ?w'"
    have wf2: "wellFormed ?w2" using assms(1) by (rule wellFormed_copy)
    have b2: "cache_Get (CacheKey (objectMetas ?w2 mp)) (byFunction ?w2) = Inr f"
      using assms(2) by (simp add: assign_def)
    have G2: "GetByFunction CacheKey later (Some mp) ?w2 =
       (Returns (Some (nextFuncSvc ?w2), None),
        ?w2\<lparr>funcSvcs := (funcSvcs ?w2)
           (f := (funcSvcs ?w2 f)\<lparr>Atime := later\<rparr>,
            nextFuncSvc ?w2 := (funcSvcs ?w2 f)\<lparr>Atime := later\<rparr>),
          nextFuncSvc := Suc (nextFuncSvc ?w2)\<rparr>)"
      using wf2 b2 by (rule GetByFunction_eq [where CacheKey = CacheKey])
    show ?thesis
      unfolding G2 using lt by (simp add: assign_def)
  qed
  show ?thesis
    using lt fresh later by (simp add: G Let_def cached_def)
qed

lemma GetByFunctionUID_independent:
  assumes "wellFormed w"
    and "cache_Get uid (byFunctionUID w) = Inr m"
    and "cache_Get (CacheKey m) (byFunction w) = Inr f"
  shows "fst (GetByFunctionUID CacheKey now uid w) = Returns (Some (nextFuncSvc w), None) \<and>
         (let r = nextFuncSvc w; w' = snd (GetByFunctionUID CacheKey now uid w)
          in r \<notin> set (cached w') \<and> r \<noteq> f \<and>
             funcSvcs w' f = (funcSvcs w f)\<lparr>Atime := now\<rparr> \<and>
             funcSvcs w' r = (funcSvcs w f)\<lparr>Atime := now\<rparr> \<and>
             (\<forall>v later.
                fst (GetByFunctionUID CacheKey later uid (assign r v w')) =
                  Returns (Some (Suc r), None) \<and>
                funcSvcs (snd (GetByFunctionUID CacheKey later uid (assign r v w'))) (Suc r) =
                  (funcSvcs w f)\<lparr>Atime := later\<rparr>))"
proof -
  let ?r = "nextFuncSvc w"
  let ?h = "(funcSvcs w)(f := (funcSvcs w f)\<lparr>Atime := now\<rparr>, ?r := (funcSvcs w f)\<lparr>Atime := now\<rparr>)"
  let ?w' = "w\<lparr>funcSvcs := ?h, nextFuncSvc := Suc ?r\<rparr>"
  have lt: "f < ?r" using assms(1,3) by (rule bound_allocated)
  have fresh: "?r \<notin> set (cached w)" using assms(1) by (fastforce simp: wellFormed_def)
  have U: "GetByFunctionUID CacheKey now uid w = (Returns (Some ?r, None), ?w')"
    using assms by (rule GetByFunctionUID_eq [where CacheKey = CacheKey])
  have later: "fst (GetByFunctionUID CacheKey later uid (assign ?r v ?w')) =
                  Returns (Some (Suc ?r), None) \<and>
                funcSvcs (snd (GetByFunctionUID CacheKey later uid (assign ?r v ?w'))) (Suc ?r) =
                  (funcSvcs w f)\<lparr>Atime := later\<rparr>" for v later
  proof -
    let ?w2 = "assign ?r v ?w'"
    have wf2: "wellFormed ?w2" using assms(1) by (rule wellFormed_copy)
    have u2: "cache_Get uid (byFunctionUID ?w2) = Inr m" using assms(2) by (simp add: assign_def)
    have f2: "cache_Get (CacheKey m) (byFunction ?w2) = Inr f" using assms(3) by (simp add: assign_def)
    have U2: "GetByFunctionUID CacheKey later uid ?w2 =
       (Returns (Some (nextFuncSvc ?w2), None),
        ?w2\<lparr>funcSvcs := (funcSvcs ?w2)
           (f := (funcSvcs ?w2 f)\<lparr>Atime := later\<rparr>,
            nextFuncSvc ?w2 := (funcSvcs ?w2 f)\<lparr>Atime := later\<rparr>),
          nextFuncSvc := Suc (nextFuncSvc ?w2)\<rparr>)"
      using wf2 u2 f2 by (rule GetByFunctionUID_eq [where CacheKey = CacheKey])
    show ?thesis
      unfolding U2 using lt by (simp add: assign_def)
  qed
  show ?thesis
    using lt fresh later by (simp add: U Let_def cached_def)
qed

text \<open>
  C4, as the code has it, for every record in \<^verbatim>\<open>byFunction\<close>. A lookup by function whose
  key is bound to the record, and, separately, a lookup by a UID that \<^verbatim>\<open>byFunctionUID\<close>
  leads to the record: each sets the \<^verbatim>\<open>Atime\<close> of the cached record to the time of the
  call and returns the address of a new struct with the same fields, which is in no index.
  Whatever the caller then assigns to that struct, a later lookup of the same kind returns a
  struct with the fields of the cached record (and the later \<^verbatim>\<open>Atime\<close>): the fields of the
  struct are the caller's own. What the fields \<^verbatim>\<open>Function\<close> and \<^verbatim>\<open>Environment\<close> point
  to, and the array behind \<^verbatim>\<open>KubernetesObjects\<close>, is not copied.
\<close>

theorem lookup_returns_independent_struct:
  assumes "wellFormed w"
  shows
    "(cache_Get (CacheKey (objectMetas w mp)) (byFunction w) = Inr f \<longrightarrow>
        fst (GetByFunction CacheKey now (Some mp) w) = Returns (Some (nextFuncSvc w), None) \<and>
        (let r = nextFuncSvc w; w' = snd (GetByFunction CacheKey now (Some mp) w)
         in r \<notin> set (cached w') \<and> r \<noteq> f \<and>
            funcSvcs w' f = (funcSvcs w f)\<lparr>Atime := now\<rparr> \<and>
            funcSvcs w' r = (funcSvcs w f)\<lparr>Atime := now\<rparr> \<and>
            (\<forall>v later.
               fst (GetByFunction CacheKey later (Some mp) (assign r v w')) =
                 Returns (Some (Suc r), None) \<and>
               funcSvcs (snd (GetByFunction CacheKey later (Some mp) (assign r v w'))) (Suc r) =
                 (funcSvcs w f)\<lparr>Atime := later\<rparr>))) \<and>
     (cache_Get uid (byFunctionUID w) = Inr m \<longrightarrow> cache_Get (CacheKey m) (byFunction w) = Inr g \<longrightarrow>
        fst (GetByFunctionUID CacheKey now uid w) = Returns (Some (nextFuncSvc w), None) \<and>
        (let r = nextFuncSvc w; w' = snd (GetByFunctionUID CacheKey now uid w)
         in r \<notin> set (cached w') \<and> r \<noteq> g \<and>
            funcSvcs w' g = (funcSvcs w g)\<lparr>Atime := now\<rparr> \<and>
            funcSvcs w' r = (funcSvcs w g)\<lparr>Atime := now\<rparr> \<and>
            (\<forall>v later.
               fst (GetByFunctionUID CacheKey later uid (assign r v w')) =
                 Returns (Some (Suc r), None) \<and>
               funcSvcs (snd (GetByFunctionUID CacheKey later uid (assign r v w'))) (Suc r) =
                 (funcSvcs w g)\<lparr>Atime := later\<rparr>)))"
proof (intro conjI impI)
  assume "cache_Get (CacheKey (objectMetas w mp)) (byFunction w) = Inr f"
  with assms have G: "fst (GetByFunction CacheKey now (Some mp) w) = Returns (Some (nextFuncSvc w), None) \<and>
         (let r = nextFuncSvc w; w' = snd (GetByFunction CacheKey now (Some mp) w)
          in r \<notin> set (cached w') \<and> r \<noteq> f \<and>
             funcSvcs w' f = (funcSvcs w f)\<lparr>Atime := now\<rparr> \<and>
             funcSvcs w' r = (funcSvcs w f)\<lparr>Atime := now\<rparr> \<and>
             (\<forall>v later.
                fst (GetByFunction CacheKey later (Some mp) (assign r v w')) =
                  Returns (Some (Suc r), None) \<and>
                funcSvcs (snd (GetByFunction CacheKey later (Some mp) (assign r v w'))) (Suc r) =
                  (funcSvcs w f)\<lparr>Atime := later\<rparr>))"
    by (rule GetByFunction_independent [where CacheKey = CacheKey])
  from G show "fst (GetByFunction CacheKey now (Some mp) w) = Returns (Some (nextFuncSvc w), None)" ..
  from G show "let r = nextFuncSvc w; w' = snd (GetByFunction CacheKey now (Some mp) w)
          in r \<notin> set (cached w') \<and> r \<noteq> f \<and>
             funcSvcs w' f = (funcSvcs w f)\<lparr>Atime := now\<rparr> \<and>
             funcSvcs w' r = (funcSvcs w f)\<lparr>Atime := now\<rparr> \<and>
             (\<forall>v later.
                fst (GetByFunction CacheKey later (Some mp) (assign r v w')) =
                  Returns (Some (Suc r), None) \<and>
                funcSvcs (snd (GetByFunction CacheKey later (Some mp) (assign r v w'))) (Suc r) =
                  (funcSvcs w f)\<lparr>Atime := later\<rparr>)" ..
next
  assume "cache_Get uid (byFunctionUID w) = Inr m" and "cache_Get (CacheKey m) (byFunction w) = Inr g"
  with assms have U: "fst (GetByFunctionUID CacheKey now uid w) = Returns (Some (nextFuncSvc w), None) \<and>
         (let r = nextFuncSvc w; w' = snd (GetByFunctionUID CacheKey now uid w)
          in r \<notin> set (cached w') \<and> r \<noteq> g \<and>
             funcSvcs w' g = (funcSvcs w g)\<lparr>Atime := now\<rparr> \<and>
             funcSvcs w' r = (funcSvcs w g)\<lparr>Atime := now\<rparr> \<and>
             (\<forall>v later.
                fst (GetByFunctionUID CacheKey later uid (assign r v w')) =
                  Returns (Some (Suc r), None) \<and>
                funcSvcs (snd (GetByFunctionUID CacheKey later uid (assign r v w'))) (Suc r) =
                  (funcSvcs w g)\<lparr>Atime := later\<rparr>))"
    by (rule GetByFunctionUID_independent [where CacheKey = CacheKey])
  from U show "fst (GetByFunctionUID CacheKey now uid w) = Returns (Some (nextFuncSvc w), None)" ..
  from U show "let r = nextFuncSvc w; w' = snd (GetByFunctionUID CacheKey now uid w)
          in r \<notin> set (cached w') \<and> r \<noteq> g \<and>
             funcSvcs w' g = (funcSvcs w g)\<lparr>Atime := now\<rparr> \<and>
             funcSvcs w' r = (funcSvcs w g)\<lparr>Atime := now\<rparr> \<and>
             (\<forall>v later.
                fst (GetByFunctionUID CacheKey later uid (assign r v w')) =
                  Returns (Some (Suc r), None) \<and>
                funcSvcs (snd (GetByFunctionUID CacheKey later uid (assign r v w'))) (Suc r) =
                  (funcSvcs w g)\<lparr>Atime := later\<rparr>)" ..
qed

text \<open>The theorem at \<open>shared\<close>: the lookup by function of the second service, which no
  entry of \<^verbatim>\<open>byFunctionUID\<close> leads to, and the lookup by UID of the first.\<close>

theorem lookup_returns_independent_struct_witness:
  "fst (GetByFunction keyOf 200 (Some 2) shared) = Returns (Some 2, None) \<and>
   funcSvcs (snd (GetByFunction keyOf 200 (Some 2) shared)) 1 = svc2\<lparr>Ctime := 150, Atime := 200\<rparr> \<and>
   funcSvcs (snd (GetByFunction keyOf 200 (Some 2) shared)) 2 = svc2\<lparr>Ctime := 150, Atime := 200\<rparr> \<and>
   funcSvcs (snd (GetByFunction keyOf 300 (Some 2)
      (assign 2 zeroFuncSvc (snd (GetByFunction keyOf 200 (Some 2) shared))))) 3 =
     svc2\<lparr>Ctime := 150, Atime := 300\<rparr> \<and>
   fst (GetByFunctionUID keyOf 200 ''u1'' shared) = Returns (Some 2, None) \<and>
   funcSvcs (snd (GetByFunctionUID keyOf 200 ''u1'' shared)) 0 = svc1\<lparr>Ctime := 100, Atime := 200\<rparr> \<and>
   funcSvcs (snd (GetByFunctionUID keyOf 300 ''u1''
      (assign 2 zeroFuncSvc (snd (GetByFunctionUID keyOf 200 ''u1'' shared))))) 3 =
     svc1\<lparr>Ctime := 100, Atime := 300\<rparr>"
proof -
  have 1: "wellFormed shared" by (rule wellFormed_examples)
  have 2: "cache_Get (keyOf (objectMetas shared 2)) (byFunction shared) = Inr 1"
    by (simp add: shared_eval cache_Get_def process_def keyOf_def fn1_def fn2_def)
  have 3: "cache_Get ''u1'' (byFunctionUID shared) = Inr fn1" by (simp add: shared_eval cache_Get_def)
  have 4: "cache_Get (keyOf fn1) (byFunction shared) = Inr 0"
    by (simp add: shared_eval cache_Get_def keyOf_def fn1_def)
  have 5: "Suc 2 = 3" by simp
  note T = lookup_returns_independent_struct [where CacheKey = keyOf and w = shared and mp = 2
      and f = 1 and uid = "''u1''" and m = fn1 and g = 0 and now = 200, OF 1]
  from T 2 have a: "fst (GetByFunction keyOf 200 (Some 2) shared) = Returns (Some 2, None)"
    and b: "funcSvcs (snd (GetByFunction keyOf 200 (Some 2) shared)) 1 = svc2\<lparr>Ctime := 150, Atime := 200\<rparr>"
    and c: "funcSvcs (snd (GetByFunction keyOf 200 (Some 2) shared)) 2 = svc2\<lparr>Ctime := 150, Atime := 200\<rparr>"
    by (simp_all add: Let_def shared_eval)
  from T 2 have "\<forall>v later.
      funcSvcs (snd (GetByFunction keyOf later (Some 2)
        (assign 2 v (snd (GetByFunction keyOf 200 (Some 2) shared))))) 3 =
          svc2\<lparr>Ctime := 150, Atime := later\<rparr>"
    by (simp add: Let_def shared_eval 5)
  then have d: "funcSvcs (snd (GetByFunction keyOf 300 (Some 2)
        (assign 2 zeroFuncSvc (snd (GetByFunction keyOf 200 (Some 2) shared))))) 3 =
          svc2\<lparr>Ctime := 150, Atime := 300\<rparr>"
    by blast
  from T 3 4 have e: "fst (GetByFunctionUID keyOf 200 ''u1'' shared) = Returns (Some 2, None)"
    and f: "funcSvcs (snd (GetByFunctionUID keyOf 200 ''u1'' shared)) 0 = svc1\<lparr>Ctime := 100, Atime := 200\<rparr>"
    by (simp_all add: Let_def shared_eval)
  from T 3 4 have "\<forall>v later.
      funcSvcs (snd (GetByFunctionUID keyOf later ''u1''
        (assign 2 v (snd (GetByFunctionUID keyOf 200 ''u1'' shared))))) 3 =
          svc1\<lparr>Ctime := 100, Atime := later\<rparr>"
    by (simp add: Let_def shared_eval 5)
  then have g: "funcSvcs (snd (GetByFunctionUID keyOf 300 ''u1''
        (assign 2 zeroFuncSvc (snd (GetByFunctionUID keyOf 200 ''u1'' shared))))) 3 =
          svc1\<lparr>Ctime := 100, Atime := 300\<rparr>"
    by blast
  show ?thesis using a b c d e f g by simp
qed

text \<open>
  C4 as stated fails: the copy is of the struct, and its slice \<^verbatim>\<open>KubernetesObjects\<close> has
  the backing array of the cached record's. After a lookup in \<open>added\<close>, the caller assigns
  to element 0 of \<^verbatim>\<open>KubernetesObjects\<close> of the record it was returned (at 1); the next
  lookup of the same key returns a record (at 2) whose element 0 is the one assigned, and so
  is the cached record's (at 0). Without the assignment it is \<^verbatim>\<open>pod-1\<close>.
\<close>

lemmas lookup_simps = GetByFunction_def touchAndCopy_def new_def assign_def cache_Get_def
  Let_def keyOf_def process_def fn1_def svc1_def

theorem lookup_shares_backing_array_counterexample:
  "fst (GetByFunction keyOf 200 (Some 1) added) = Returns (Some 1, None) \<and>
   (let w1 = snd (GetByFunction keyOf 200 (Some 1) added);
        w2 = assignElement 1 0 \<lparr>Kind = ''Pod'', ObjectReference.Name = ''renamed''\<rparr> w1
    in fst (GetByFunction keyOf 300 (Some 1) w1) = Returns (Some 2, None) \<and>
       elements (snd (GetByFunction keyOf 300 (Some 1) w1)) 2 =
         [\<lparr>Kind = ''Pod'', ObjectReference.Name = ''pod-1''\<rparr>] \<and>
       fst (GetByFunction keyOf 300 (Some 1) w2) = Returns (Some 2, None) \<and>
       elements (snd (GetByFunction keyOf 300 (Some 1) w2)) 2 =
         [\<lparr>Kind = ''Pod'', ObjectReference.Name = ''renamed''\<rparr>] \<and>
       elements (snd (GetByFunction keyOf 300 (Some 1) w2)) 0 =
         [\<lparr>Kind = ''Pod'', ObjectReference.Name = ''renamed''\<rparr>])"
proof -
  have G: "GetByFunction keyOf 200 (Some 1) added =
     (Returns (Some 1, None),
      added\<lparr>funcSvcs := (funcSvcs added)
           (0 := svc1\<lparr>Ctime := 100, Atime := 200\<rparr>, 1 := svc1\<lparr>Ctime := 100, Atime := 200\<rparr>),
        nextFuncSvc := 2\<rparr>)"
    by (simp add: added_eval lookup_simps)
  have m: "objectMetas added = objectMetas process" by (simp add: added_eval)
  have a: "arrays added = arrays process" by (simp add: added_def run_simps)
  show ?thesis
    unfolding G
    by (simp add: Let_def assignElement_def elements_def GetByFunction_def touchAndCopy_def
        new_def assign_def cache_Get_def added_eval a keyOf_def process_def fn1_def svc1_def)
qed

subsection \<open>Creation and access times\<close>

text \<open>The invariant: the memory is well formed, and every record the cache holds was
  created no later than it was last accessed, which was no later than the clock reads.\<close>

lemma timesOrdered_mono: "timesOrdered t w \<Longrightarrow> t \<le> t' \<Longrightarrow> timesOrdered t' w"
  by (fastforce simp: timesOrdered_def)

lemma timesOrdered_same:
  assumes "timesOrdered t w"
    and "set (cached w') \<subseteq> set (cached w)"
    and "funcSvcs w' = funcSvcs w" and "nextFuncSvc w' = nextFuncSvc w"
  shows "timesOrdered t w'"
  using assms by (auto simp: timesOrdered_def wellFormed_def)

lemma cached_assign: "cached (assign p v w) = cached w"
  by (simp add: cached_def assign_def)

lemma cached_new: "cached (snd (new v w)) = cached w"
  by (simp add: cached_def new_def)

lemma timesOrdered_touch:
  assumes "timesOrdered t w" and "t \<le> now"
  shows "timesOrdered now (assign g ((funcSvcs w g)\<lparr>Atime := now\<rparr>) w)"
proof -
  have "Ctime (funcSvcs w p) \<le> now \<and> Atime (funcSvcs w p) \<le> now"
    if "p \<in> set (cached w)" for p
    using assms that by (fastforce simp: timesOrdered_def)
  then show ?thesis
    using assms
    by (auto simp: timesOrdered_def wellFormed_def cached_assign) (auto simp: assign_def)
qed

lemma timesOrdered_new:
  assumes "timesOrdered t w"
  shows "timesOrdered t (snd (new v w))"
proof -
  have "\<forall>p \<in> set (cached w). p < nextFuncSvc w"
    using assms by (simp add: timesOrdered_def wellFormed_def)
  then show ?thesis
    using assms
    by (auto simp: timesOrdered_def wellFormed_def cached_new) (auto simp: new_def less_Suc_eq)
qed

lemma timesOrdered_touchAndCopy:
  assumes "timesOrdered t w" and "t \<le> now"
  shows "timesOrdered now (snd (touchAndCopy now f w))"
  using timesOrdered_new [OF timesOrdered_touch [OF assms]]
  by (simp add: touchAndCopy_def Let_def)

lemma cached_zap [simp]:
  "cached (zap l msg strings w) = cached w" "funcSvcs (zap l msg strings w) = funcSvcs w"
  "nextFuncSvc (zap l msg strings w) = nextFuncSvc w"
  by (simp_all add: zap_def cached_def)

lemma timesOrdered_zap: "timesOrdered t (zap l msg strings w) = timesOrdered t w"
  by (simp add: timesOrdered_def wellFormed_def)

lemma timesOrdered_TouchByAddress:
  assumes "timesOrdered t w" and "t \<le> now"
  shows "timesOrdered now (snd (TouchByAddress CacheKey now addr w))"
proof -
  have m: "timesOrdered now w" using assms by (rule timesOrdered_mono)
  show ?thesis
    using m timesOrdered_touch [OF assms]
    by (auto simp: TouchByAddress_def request_def service_def touchByAddress_def
        split: sum.splits)
qed

lemma timesOrdered_ListOld:
  assumes "timesOrdered t w"
  shows "timesOrdered t (snd (ListOld CacheKey now a w))"
proof -
  have "timesOrdered t ((zap Err ''error while getting service'' [] w)\<lparr>serving := False\<rparr>)"
    using assms by (rule timesOrdered_same) (simp_all add: cached_def zap_def)
  with assms show ?thesis
    by (auto simp: ListOld_def request_def service_def split: sum.splits)
qed

lemma timesOrdered_ListOldForPool:
  assumes "timesOrdered t w"
  shows "timesOrdered t (snd (ListOldForPool CacheKey now a w))"
  using assms by (auto simp: ListOldForPool_def request_def service_def Let_def)

lemma timesOrdered_Log:
  assumes "timesOrdered t w"
  shows "timesOrdered t (snd (Log CacheKey now w))"
  using assms
  by (auto simp: Log_def request_def service_def Let_def timesOrdered_zap)

lemma timesOrdered_GetByFunction:
  assumes "timesOrdered t w" and "t \<le> now"
  shows "timesOrdered now (snd (GetByFunction CacheKey now m w))"
  using timesOrdered_mono [OF assms] timesOrdered_touchAndCopy [OF assms]
  by (auto simp: GetByFunction_def split: option.splits sum.splits prod.splits)
     (metis snd_conv)+


lemma timesOrdered_GetByFunctionUID:
  assumes "timesOrdered t w" and "t \<le> now"
  shows "timesOrdered now (snd (GetByFunctionUID CacheKey now uid w))"
  using timesOrdered_mono [OF assms] timesOrdered_touchAndCopy [OF assms]
  by (auto simp: GetByFunctionUID_def split: option.splits sum.splits prod.splits)
     (metis snd_conv)+

lemma cache_Delete_subset: "set (snd (cache_Delete k c)) \<subseteq> set c"
  by (auto simp: cache_Delete_def)

lemma timesOrdered_DeleteEntry:
  assumes "timesOrdered t w"
  shows "timesOrdered t (snd (DeleteEntry CacheKey fsvc w))"
proof (cases fsvc)
  case None
  then show ?thesis using assms by (simp add: DeleteEntry_def DeleteEntryVia_def)
next
  case (Some p)
  show ?thesis
  proof (cases "Function (funcSvcs w p)")
    case None
    then show ?thesis using assms Some by (simp add: DeleteEntry_def DeleteEntryVia_def)
  next
    case (Some fn)
    have "set (cached (snd (DeleteEntry CacheKey (Some p) w))) \<subseteq> set (cached w)"
      using cache_Delete_subset [of "CacheKey (objectMetas w fn)" "byFunction w"]
      by (auto simp: DeleteEntry_eq [OF Some] Let_def cached_def)
    with assms show ?thesis
      unfolding \<open>fsvc = Some p\<close>
      by (rule timesOrdered_same) (simp_all add: DeleteEntry_eq [OF Some] Let_def)
  qed
qed

lemma timesOrdered_DeleteOld:
  assumes "timesOrdered t w"
  shows "timesOrdered t (snd (DeleteOld CacheKey now fsvc minAge w))"
proof (cases fsvc)
  case None
  then show ?thesis using assms by (simp add: DeleteOld_def)
next
  case (Some p)
  have "timesOrdered t (snd (DeleteEntry CacheKey (Some p) w))"
    using assms by (rule timesOrdered_DeleteEntry)
  then show ?thesis
    using assms Some
    by (cases "DeleteEntry CacheKey (Some p) w"; cases "fst (DeleteEntry CacheKey (Some p) w)")
       (auto simp: DeleteOld_def)
qed

lemma timesOrdered_Add:
  assumes "timesOrdered t w" and "t \<le> now"
  shows "timesOrdered now (snd (Add CacheKey now param w))"
proof (cases "Function param")
  case None
  have "timesOrdered now (snd (new param w))"
    using timesOrdered_mono [OF assms] by (rule timesOrdered_new)
  then show ?thesis using None by (simp add: Add_def new_def)
next
  case (Some fn)
  show ?thesis
  proof (cases "cache_Get (CacheKey (objectMetas w fn)) (byFunction w)")
    case (Inl e)
    have old: "p < nextFuncSvc w \<and> Ctime (funcSvcs w p) \<le> Atime (funcSvcs w p) \<and>
               Atime (funcSvcs w p) \<le> now" if "p \<in> set (cached w)" for p
      using assms that by (fastforce simp: timesOrdered_def wellFormed_def)
    show ?thesis
      unfolding Add_unbound_eq [where CacheKey = CacheKey, OF Some Inl]
      using old
      by (auto simp: timesOrdered_def wellFormed_def cached_def Let_def less_Suc_eq)
  next
    case (Inr f)
    have wf: "wellFormed w" using assms(1) by (simp add: timesOrdered_def)
    let ?w1 = "snd (new param w)"
    have 1: "timesOrdered t ?w1" using assms(1) by (rule timesOrdered_new)
    have T: "timesOrdered now (snd (TouchByAddress CacheKey now (Address (funcSvcs w f)) ?w1))"
      using 1 assms(2) by (rule timesOrdered_TouchByAddress)
    obtain r w2 where R: "TouchByAddress CacheKey now (Address (funcSvcs w f)) ?w1 = (r, w2)"
      by (cases "TouchByAddress CacheKey now (Address (funcSvcs w f)) ?w1")
    have 2: "timesOrdered now w2" using T by (simp add: R)
    have 3: "timesOrdered now (snd (new (funcSvcs w2 f) w2))" using 2 by (rule timesOrdered_new)
    show ?thesis
      unfolding Add_bound_unfold [where CacheKey = CacheKey, OF wf Some Inr] R
      using 2 3
      by (cases r) (auto split: option.splits prod.splits)
  qed
qed

lemma set_upsert: "set (upsert k v c) \<subseteq> insert (k, v) (set c)"
  by (induction c) auto

lemma vals_upsert:
  "(\<lambda>ai. val (snd ai)) ` set (upsert a i xs) \<subseteq> insert (val i) ((\<lambda>ai. val (snd ai)) ` set xs)"
  using set_upsert [of a i xs] by auto

lemma set_pooled:
  "set (pooled c) = (\<Union>kg \<in> set c. (\<lambda>ai. val (snd ai)) ` set (svcs (snd kg)))"
  by (auto simp: pooled_def split: prod.splits) force+

lemma pooled_upsert:
  "set (pooled (upsert key g c)) \<subseteq> set (pooled c) \<union> (\<lambda>ai. val (snd ai)) ` set (svcs g)"
  using set_upsert [of key g c] by (fastforce simp: set_pooled)

lemma group_pooled: "(\<lambda>ai. val (snd ai)) ` set (svcs (groupAt c key)) \<subseteq> set (pooled c)"
proof (cases "map_of c key")
  case None
  then show ?thesis by (simp add: groupAt_def emptyGroup_def)
next
  case (Some g)
  then have "(key, g) \<in> set c" by (rule map_of_SomeD)
  show ?thesis
  proof
    fix x assume "x \<in> (\<lambda>ai. val (snd ai)) ` set (svcs (groupAt c key))"
    then obtain ai where "ai \<in> set (svcs g)" and "x = val (snd ai)"
      using Some by (auto simp: groupAt_def)
    with \<open>(key, g) \<in> set c\<close> show "x \<in> set (pooled c)"
      unfolding set_pooled by force
  qed
qed

lemma pooled_SetSvcValue:
  "set (pooled (SetSvcValue key addr fsvc cpu r c)) \<subseteq> insert fsvc (set (pooled c))"
proof -
  let ?g = "groupAt c key"
  let ?entry = "case map_of (svcs ?g) addr of
                  None \<Rightarrow> \<lparr>val = fsvc, activeRequests = 0, currentCPUUsage = ''0'', cpuLimit = cpu\<rparr>
                | Some i \<Rightarrow> i\<lparr>val := fsvc, cpuLimit := cpu\<rparr>"
  have e: "val ?entry = fsvc" by (simp split: option.splits)
  let ?g1 = "?g\<lparr>svcs := upsert addr ?entry (svcs ?g)\<rparr>"
  let ?g2 = "if 0 < queue ?g1 then ?g1\<lparr>queue := queue ?g1 - 1, svcWaiting := svcWaiting ?g1 - 1\<rparr>
             else if 0 < svcWaiting ?g1 then ?g1\<lparr>svcWaiting := svcWaiting ?g1 - 1\<rparr>
             else ?g1"
  have "(\<lambda>ai. val (snd ai)) ` set (upsert addr ?entry (svcs ?g))
          \<subseteq> insert (val ?entry) ((\<lambda>ai. val (snd ai)) ` set (svcs ?g))"
    by (rule vals_upsert)
  then have v: "(\<lambda>ai. val (snd ai)) ` set (upsert addr ?entry (svcs ?g)) \<subseteq> insert fsvc (set (pooled c))"
    unfolding e using group_pooled [of c key] by blast
  have s2: "svcs ?g2 = upsert addr ?entry (svcs ?g)" by simp
  have "set (pooled (upsert key ?g2 c)) \<subseteq> set (pooled c) \<union> (\<lambda>ai. val (snd ai)) ` set (svcs ?g2)"
    by (rule pooled_upsert)
  then have "set (pooled (upsert key ?g2 c)) \<subseteq> insert fsvc (set (pooled c))"
    unfolding s2 using v by blast
  then show ?thesis
    by (simp add: SetSvcValue_def Let_def)
qed

lemma AddFunc_eq:
  assumes "Function param = Some fn"
  shows "AddFunc CacheKey now param requestsPerPod w =
     (Returns (),
      w\<lparr>funcSvcs := (funcSvcs w)(nextFuncSvc w := param\<lparr>Ctime := now, Atime := now\<rparr>),
        nextFuncSvc := Suc (nextFuncSvc w),
        connFunctionCache :=
          SetSvcValue (CacheKey (objectMetas w fn)) (Address param) (nextFuncSvc w)
            (CPULimit param) requestsPerPod (connFunctionCache w)\<rparr>)"
  using assms by (simp add: AddFunc_def new_def assign_def Let_def)

lemma timesOrdered_AddFunc:
  assumes "timesOrdered t w" and "t \<le> now"
  shows "timesOrdered now (snd (AddFunc CacheKey now param requestsPerPod w))"
proof (cases "Function param")
  case None
  have "timesOrdered now (snd (new param w))"
    using timesOrdered_mono [OF assms] by (rule timesOrdered_new)
  then show ?thesis using None by (simp add: AddFunc_def new_def)
next
  case (Some fn)
  let ?n = "nextFuncSvc w"
  let ?c' = "SetSvcValue (CacheKey (objectMetas w fn)) (Address param) ?n
               (CPULimit param) requestsPerPod (connFunctionCache w)"
  let ?w' = "w\<lparr>funcSvcs := (funcSvcs w)(?n := param\<lparr>Ctime := now, Atime := now\<rparr>),
               nextFuncSvc := Suc ?n, connFunctionCache := ?c'\<rparr>"
  have old: "p < ?n \<and> Ctime (funcSvcs w p) \<le> Atime (funcSvcs w p) \<and>
             Atime (funcSvcs w p) \<le> now" if "p \<in> set (cached w)" for p
    using assms that by (fastforce simp: timesOrdered_def wellFormed_def)
  have sub: "set (pooled ?c') \<subseteq> insert ?n (set (pooled (connFunctionCache w)))"
    by (rule pooled_SetSvcValue)
  have mem: "p = ?n \<or> p \<in> set (cached w)" if "p \<in> set (cached ?w')" for p
    using that sub by (auto simp: cached_def)
  have "p < Suc ?n \<and> Ctime (funcSvcs ?w' p) \<le> Atime (funcSvcs ?w' p) \<and>
        Atime (funcSvcs ?w' p) \<le> now" if "p \<in> set (cached ?w')" for p
  proof (cases "p = ?n")
    case True
    then show ?thesis by simp
  next
    case False
    with mem [OF that] have "p \<in> set (cached w)" by simp
    from old [OF this] False show ?thesis by simp
  qed
  then have "timesOrdered now ?w'"
    unfolding timesOrdered_def wellFormed_def by simp
  then show ?thesis by (simp add: AddFunc_eq [OF Some])
qed

lemma timesOrdered_pool:
  assumes "timesOrdered t w" and "set (pooled c') \<subseteq> set (pooled (connFunctionCache w))"
  shows "timesOrdered t (w\<lparr>connFunctionCache := c'\<rparr>)"
  using assms(1)
  by (rule timesOrdered_same) (use assms(2) in \<open>auto simp: cached_def\<close>)

lemma timesOrdered_GetSvcValue:
  assumes "timesOrdered t w" and "t \<le> now"
  shows "timesOrdered now (snd (GetSvcValue now key requestsPerPod concurrency w))"
proof -
  let ?c = "connFunctionCache w"
  let ?g = "groupAt ?c key"
  have same: "timesOrdered t (w\<lparr>connFunctionCache := upsert key g' ?c\<rparr>)"
    if "(\<lambda>ai. val (snd ai)) ` set (svcs g') \<subseteq> set (pooled ?c)" for g'
  proof -
    from that pooled_upsert [of key g' ?c]
    have "set (pooled (upsert key g' ?c)) \<subseteq> set (pooled ?c)" by blast
    with assms(1) show ?thesis by (rule timesOrdered_pool)
  qed
  have gp: "(\<lambda>ai. val (snd ai)) ` set (svcs ?g) \<subseteq> set (pooled ?c)" by (rule group_pooled)
  show ?thesis
  proof (cases "find (\<lambda>ai. activeRequests (snd ai) < requestsPerPod) (svcs ?g)")
    case None
    have "timesOrdered t (w\<lparr>connFunctionCache := upsert key (?g\<lparr>svcWaiting := svcWaiting ?g + 1\<rparr>) ?c\<rparr>)"
      by (rule same) (simp add: gp)
    then have a: "timesOrdered now (w\<lparr>connFunctionCache := upsert key (?g\<lparr>svcWaiting := svcWaiting ?g + 1\<rparr>) ?c\<rparr>)"
      using assms(2) by (rule timesOrdered_mono)
    have "timesOrdered t (w\<lparr>connFunctionCache := upsert key (?g\<lparr>queue := queue ?g + 1\<rparr>) ?c\<rparr>)"
      by (rule same) (simp add: gp)
    then have b: "timesOrdered now (w\<lparr>connFunctionCache := upsert key (?g\<lparr>queue := queue ?g + 1\<rparr>) ?c\<rparr>)"
      using assms(2) by (rule timesOrdered_mono)
    show ?thesis
      unfolding GetSvcValue_def Let_def None using a b by simp
  next
    case (Some ai)
    let ?i = "(snd ai)\<lparr>activeRequests := activeRequests (snd ai) + 1\<rparr>"
    let ?w1 = "w\<lparr>connFunctionCache := upsert key (?g\<lparr>svcs := upsert (fst ai) ?i (svcs ?g)\<rparr>) ?c\<rparr>"
    from Some have "ai \<in> set (svcs ?g)" by (auto simp: find_Some_iff)
    then have mem: "val (snd ai) \<in> set (pooled ?c)" using gp by blast
    have vi: "val ?i = val (snd ai)" by simp
    have up: "(\<lambda>ai. val (snd ai)) ` set (upsert (fst ai) ?i (svcs ?g))
        \<subseteq> insert (val (snd ai)) ((\<lambda>ai. val (snd ai)) ` set (svcs ?g))"
      using vals_upsert [of "fst ai" ?i "svcs ?g"] unfolding vi .
    have "(\<lambda>ai. val (snd ai)) ` set (upsert (fst ai) ?i (svcs ?g)) \<subseteq> set (pooled ?c)"
    proof
      fix x assume "x \<in> (\<lambda>ai. val (snd ai)) ` set (upsert (fst ai) ?i (svcs ?g))"
      with up have "x \<in> insert (val (snd ai)) ((\<lambda>ai. val (snd ai)) ` set (svcs ?g))" ..
      then have "x = val (snd ai) \<or> x \<in> (\<lambda>ai. val (snd ai)) ` set (svcs ?g)" by simp
      then show "x \<in> set (pooled ?c)"
      proof
        assume "x = val (snd ai)" with mem show ?thesis by simp
      next
        assume "x \<in> (\<lambda>ai. val (snd ai)) ` set (svcs ?g)" with gp show ?thesis ..
      qed
    qed
    then have "timesOrdered t ?w1" by (intro same) simp
    then have "timesOrdered now (snd (touchAndCopy now (val ?i) ?w1))"
      using assms(2) by (rule timesOrdered_touchAndCopy)
    then show ?thesis
      unfolding GetSvcValue_def Let_def Some by (simp add: case_prod_beta)
  qed
qed

lemma timesOrdered_GetFuncSvc:
  assumes "timesOrdered t w" and "t \<le> now"
  shows "timesOrdered now (snd (GetFuncSvc CacheKey now m requestsPerPod concurrency w))"
proof (cases m)
  case None
  then show ?thesis using timesOrdered_mono [OF assms] by (simp add: GetFuncSvc_def)
next
  case (Some mp)
  obtain r w' where R: "GetSvcValue now (CacheKey (objectMetas w mp)) requestsPerPod concurrency w = (r, w')"
    by (cases "GetSvcValue now (CacheKey (objectMetas w mp)) requestsPerPod concurrency w")
  have 1: "timesOrdered now w'"
    using timesOrdered_GetSvcValue [OF assms, of "CacheKey (objectMetas w mp)" requestsPerPod concurrency]
    by (simp add: R)
  have 2: "timesOrdered now (snd (touchAndCopy now fsvc w'))" for fsvc
    using 1 by (rule timesOrdered_touchAndCopy) simp
  show ?thesis
    using 1 2 Some
    by (cases r) (auto simp: GetFuncSvc_def R timesOrdered_zap split: sum.splits prod.splits,
        metis snd_conv)
qed

lemma timesOrdered_step:
  assumes "timesOrdered t w" and "t \<le> now"
  shows "timesOrdered now (step CacheKey now c w)"
proof -
  note m = timesOrdered_mono [OF _ assms(2)]
  show ?thesis
    using assms
    by (cases c)
       (simp_all add: timesOrdered_Add timesOrdered_AddFunc timesOrdered_GetByFunction
          timesOrdered_GetByFunctionUID timesOrdered_TouchByAddress timesOrdered_GetFuncSvc
          m [OF timesOrdered_DeleteEntry] m [OF timesOrdered_DeleteOld]
          m [OF timesOrdered_ListOld] m [OF timesOrdered_ListOldForPool] m [OF timesOrdered_Log])
qed

lemma timesOrdered_run:
  "timesOrdered t w \<Longrightarrow> \<exists>t'. timesOrdered t' (run CacheKey t cs w)"
proof (induction cs arbitrary: t w)
  case Nil
  then show ?case by auto
next
  case (Cons dc cs)
  obtain d c where dc: "dc = (d, c)" by (cases dc)
  have "timesOrdered (t + int d) (step CacheKey (t + int d) c w)"
    using Cons.prems by (rule timesOrdered_step) simp
  from Cons.IH [OF this] show ?case by (simp add: dc)
qed

lemma timesOrdered_start: "timesOrdered t (MakeFunctionServiceCache w)"
  by (simp add: timesOrdered_def wellFormed_def cached_def pooled_def MakeFunctionServiceCache_def)

text \<open>
  C9. After any sequence of calls of \<^verbatim>\<open>Add\<close>, \<^verbatim>\<open>AddFunc\<close>, \<^verbatim>\<open>GetByFunction\<close>,
  \<^verbatim>\<open>GetByFunctionUID\<close>, \<^verbatim>\<open>TouchByAddress\<close> and \<^verbatim>\<open>GetFuncSvc\<close> (and of the
  removals and the other requests to the serializer), with any arguments, made one after
  the other on a clock that does not go back, on a cache that
  \<^verbatim>\<open>MakeFunctionServiceCache\<close> has just made: every record that \<^verbatim>\<open>byFunction\<close> or the
  pool cache holds has its \<^verbatim>\<open>Atime\<close> at or after its \<^verbatim>\<open>Ctime\<close>.
\<close>

theorem Atime_not_before_Ctime:
  "\<forall>p \<in> set (cached (run CacheKey t cs (MakeFunctionServiceCache w))).
     Ctime (funcSvcs (run CacheKey t cs (MakeFunctionServiceCache w)) p)
       \<le> Atime (funcSvcs (run CacheKey t cs (MakeFunctionServiceCache w)) p)"
  using timesOrdered_run [OF timesOrdered_start, where CacheKey = CacheKey and t = t and cs = cs and w1 = w]
  by (auto simp: timesOrdered_def)

lemma calls_cached: "cached (run keyOf 0 calls (MakeFunctionServiceCache process)) = [0, 1]"
  by (simp add: calls_def cached_def pooled_def Add_def AddFunc_def GetByFunction_def GetFuncSvc_def
      GetSvcValue_def SetSvcValue_def groupAt_def emptyGroup_def touchAndCopy_def
      new_def assign_def cache_Set_def cache_Get_def MakeFunctionServiceCache_def
      process_def svc1_def svc2_def fn1_def fn2_def keyOf_def secondary_def MakeError_def Let_def)

theorem Atime_not_before_Ctime_witness:
  "cached (run keyOf 0 calls (MakeFunctionServiceCache process)) = [0, 1] \<and>
   Ctime (funcSvcs (run keyOf 0 calls (MakeFunctionServiceCache process)) 0)
     \<le> Atime (funcSvcs (run keyOf 0 calls (MakeFunctionServiceCache process)) 0) \<and>
   Ctime (funcSvcs (run keyOf 0 calls (MakeFunctionServiceCache process)) 1)
     \<le> Atime (funcSvcs (run keyOf 0 calls (MakeFunctionServiceCache process)) 1)"
  using Atime_not_before_Ctime [of keyOf 0 calls process] calls_cached
  by simp

lemma calls_times:
  "Ctime (funcSvcs (run keyOf 0 calls (MakeFunctionServiceCache process)) 0) = 100"
  "Atime (funcSvcs (run keyOf 0 calls (MakeFunctionServiceCache process)) 0) = 160"
  "Ctime (funcSvcs (run keyOf 0 calls (MakeFunctionServiceCache process)) 1) = 150"
  "Atime (funcSvcs (run keyOf 0 calls (MakeFunctionServiceCache process)) 1) = 165"
  by (simp_all add: calls_def cached_def pooled_def Add_def AddFunc_def GetByFunction_def GetFuncSvc_def
      GetSvcValue_def SetSvcValue_def groupAt_def emptyGroup_def touchAndCopy_def
      new_def assign_def cache_Set_def cache_Get_def MakeFunctionServiceCache_def
      process_def svc1_def svc2_def fn1_def fn2_def keyOf_def secondary_def MakeError_def Let_def)

subsection \<open>The dump of the pool cache\<close>














lemma map_of_last: "k \<notin> fst ` set c \<Longrightarrow> map_of (c @ [(k, v)]) k = Some v"
  by (induction c) auto














end
